theory Spec2Isabelle
  imports Complex_Main "HOL-Library.Multiset"
begin

section \<open>Python strings as lists of code points\<close>

text \<open>
  A Python \<open>str\<close> is a sequence of Unicode code points. The label normaliser of
  \<open>content_classifier.py\<close> depends on Hangul syllables, full-width punctuation and
  Unicode white space, so its strings are lists of code points (natural numbers).
\<close>

type_synonym ustring = "nat list"

text \<open>\<open>str.isspace\<close> on one code point; the regular expression class \<open>\s\<close> of a
  \<open>str\<close> pattern accepts the same code points.\<close>

definition py_isspace :: "nat \<Rightarrow> bool" where
  "py_isspace c \<longleftrightarrow>
     (0x09 \<le> c \<and> c \<le> 0x0D) \<or> (0x1C \<le> c \<and> c \<le> 0x20) \<or> c = 0x85 \<or> c = 0xA0 \<or>
     c = 0x1680 \<or> (0x2000 \<le> c \<and> c \<le> 0x200A) \<or> c = 0x2028 \<or> c = 0x2029 \<or>
     c = 0x202F \<or> c = 0x205F \<or> c = 0x3000"

text \<open>\<open>s.strip()\<close> with no argument.\<close>

definition py_strip :: "ustring \<Rightarrow> ustring" where
  "py_strip s = rev (dropWhile py_isspace (rev (dropWhile py_isspace s)))"

text \<open>
  \<open>s.lower()\<close>, restricted to the letters that can change the outcome of the comparison in
  \<open>clean_category\<close>: the ASCII capitals and the Kelvin sign are the only code points whose
  lower-case form contains a character of one of the compared words; every other cased
  letter is left as it is, which gives the same answer to the membership test.
\<close>

definition lower_cp :: "nat \<Rightarrow> nat" where
  "lower_cp c = (if 0x41 \<le> c \<and> c \<le> 0x5A then c + 0x20 else if c = 0x212A then 0x6B else c)"

definition py_lower :: "ustring \<Rightarrow> ustring" where
  "py_lower s = map lower_cp s"

section \<open>\<open>content_classifier.py\<close>: \<open>clean_category\<close>\<close>

text \<open>The character class of line 38, the Hangul syllables: U+AC00 to U+D7A3.\<close>

definition is_hangul :: "nat \<Rightarrow> bool" where
  "is_hangul c \<longleftrightarrow> 0xAC00 \<le> c \<and> c \<le> 0xD7A3"

text \<open>The optional colon of the label patterns: an ASCII colon or the full-width colon
  U+FF1A.\<close>

definition drop_colon :: "ustring \<Rightarrow> ustring" where
  "drop_colon s = (case s of [] \<Rightarrow> [] | c # r \<Rightarrow> if c = 0x3A \<or> c = 0xFF1A then r else s)"

text \<open>
  \<open>re.sub(r"^P[:C]?\s*", "", line)\<close> for a literal phrase \<open>P\<close>, with \<open>C\<close> the
  full-width colon: the pattern is anchored at the start, so at most one match is replaced; both the optional colon and the white
  space are greedy and nothing follows them, so no backtracking takes place.
\<close>

definition sub_label_prefix :: "ustring \<Rightarrow> ustring \<Rightarrow> ustring" where
  "sub_label_prefix p line =
     (if take (length p) line = p
      then dropWhile py_isspace (drop_colon (drop (length p) line))
      else line)"

text \<open>The literal \<open>.docx"\<close>.\<close>

definition docx_quote :: ustring where
  "docx_quote = [0x2E, 0x64, 0x6F, 0x63, 0x78, 0x22]"

text \<open>
  The lazy \<open>.*?\.docx\"\<close>: the text after the first occurrence of \<open>.docx"\<close>; the dot does
  not match a line feed.
\<close>

fun after_docx :: "ustring \<Rightarrow> ustring option" where
  "after_docx [] = None"
| "after_docx (c # cs) =
     (if take 6 (c # cs) = docx_quote then Some (drop 6 (c # cs))
      else if c = 0x0A then None
      else after_docx cs)"

text \<open>
  \<open>re.sub(r"^\ud83d\udcc2.*?\.docx\"\s*", "", line)\<close>. The pattern is a raw string, so the
  regular expression engine reads the two escapes \<open>\ud83d\<close> and \<open>\udcc2\<close> as the two code
  points U+D83D and U+DCC2.
\<close>

definition sub_folder_glyph :: "ustring \<Rightarrow> ustring" where
  "sub_folder_glyph line =
     (if take 2 line = [0xD83D, 0xDCC2]
      then (case after_docx (drop 2 line) of
              None \<Rightarrow> line
            | Some rest \<Rightarrow> dropWhile py_isspace rest)
      else line)"

text \<open>The characters removed by line 35 (the double quote and the curly quotes U+201C,
  U+201D, U+2018, U+2019) and by line 36 (\<open>[\\/:*?"<>|]\<close>).\<close>

definition quote_chars :: "nat list" where
  "quote_chars = [0x22, 0x201C, 0x201D, 0x2018, 0x2019]"

definition reserved_chars :: "nat list" where
  "reserved_chars = [0x5C, 0x2F, 0x3A, 0x2A, 0x3F, 0x22, 0x3C, 0x3E, 0x7C]"

text \<open>The phrases of lines 29, 30, 32, 33 and 34, in that order.\<close>

definition phrase_answer :: ustring where
  "phrase_answer = [0xB2F5, 0xBCC0]"

definition phrase_enter_answer :: ustring where
  "phrase_enter_answer = [0xB2F5, 0xC744, 0x20, 0xC785, 0xB825, 0xD558, 0xC138, 0xC694]"

definition phrase_file_name :: ustring where
  "phrase_file_name = [0xD30C, 0xC77C, 0x20, 0xC774, 0xB984]"

definition phrase_output :: ustring where
  "phrase_output = [0xCD9C, 0xB825]"

definition phrase_example_output :: ustring where
  "phrase_example_output = [0xC608, 0xC2DC, 0x20, 0xCD9C, 0xB825]"

text \<open>The four words of the list of line 40, the last one being \<open>unknown\<close>.\<close>

definition word_gita :: ustring where
  "word_gita = [0xAE30, 0xD0C0]"

definition word_moreum :: ustring where
  "word_moreum = [0xBAA8, 0xB984]"

definition banned_words :: "ustring list" where
  "banned_words =
     [word_gita,
      [0xC54C, 0x20, 0xC218, 0x20, 0xC5C6, 0xC74C],
      word_moreum,
      [0x75, 0x6E, 0x6B, 0x6E, 0x6F, 0x77, 0x6E]]"

definition clean_category :: "ustring \<Rightarrow> ustring option" where
  "clean_category raw_text =
     (let line = takeWhile (\<lambda>c. c \<noteq> 0x0A) (py_strip raw_text);
          line = sub_label_prefix phrase_answer line;
          line = sub_label_prefix phrase_enter_answer line;
          line = sub_folder_glyph line;
          line = sub_label_prefix phrase_file_name line;
          line = sub_label_prefix phrase_output line;
          line = sub_label_prefix phrase_example_output line;
          line = filter (\<lambda>c. c \<notin> set quote_chars) line;
          line = filter (\<lambda>c. c \<notin> set reserved_chars) line
      in if \<not> list_ex is_hangul line then None
         else if line = [] \<or> py_lower line \<in> set banned_words \<or> length (py_strip line) < 2
         then None
         else Some (py_strip line))"

text \<open>
  The five label phrases, and the effect of lines 29, 30, 32, 33 and 34 together on a
  line that line 31 leaves alone.
\<close>

definition label_phrases :: "ustring list" where
  "label_phrases =
     [phrase_answer, phrase_enter_answer, phrase_file_name, phrase_output, phrase_example_output]"

definition strip_label_phrases :: "ustring \<Rightarrow> ustring" where
  "strip_label_phrases line =
     sub_label_prefix phrase_example_output
       (sub_label_prefix phrase_output
         (sub_label_prefix phrase_file_name
           (sub_label_prefix phrase_enter_answer
             (sub_label_prefix phrase_answer line))))"

definition starts_with_label_phrase :: "ustring \<Rightarrow> bool" where
  "starts_with_label_phrase s \<longleftrightarrow> list_ex (\<lambda>p. take (length p) s = p) label_phrases"

text \<open>
  A clean input: trimmed, a single line, and free of quote characters and of reserved
  characters.
\<close>

definition is_clean_label :: "ustring \<Rightarrow> bool" where
  "is_clean_label s \<longleftrightarrow>
     py_strip s = s \<and> 0x0A \<notin> set s \<and>
     (\<forall>c \<in> set s. c \<notin> set quote_chars \<and> c \<notin> set reserved_chars)"

section \<open>\<open>content_classifier.py\<close>: \<open>group_similar_filenames\<close>\<close>

text \<open>
  File paths are byte strings here: the functions on paths only look at the separator
  \<open>/\<close> and at the dot. \<open>os.path\<close> is the POSIX flavour (\<open>posixpath\<close>).
\<close>

text \<open>\<open>os.path.basename\<close>: the text after the last separator.\<close>

definition basename :: "string \<Rightarrow> string" where
  "basename p = rev (takeWhile (\<lambda>c. c \<noteq> CHR ''/'') (rev p))"

text \<open>
  The body of the inner loop for one index \<open>j\<close>. The similarity
  \<open>difflib.SequenceMatcher(None, a, b).ratio()\<close> belongs to the standard library and is a
  parameter \<open>ratio\<close>; the ratio and the threshold are real numbers.
\<close>

definition scan_candidate ::
  "(string \<Rightarrow> string \<Rightarrow> real) \<Rightarrow> real \<Rightarrow> string list \<Rightarrow> string list \<Rightarrow> string \<Rightarrow> nat \<Rightarrow>
   string list \<times> bool list \<Rightarrow> string list \<times> bool list" where
  "scan_candidate ratio threshold file_paths filenames fname j =
     (\<lambda>(grp, assigned).
        if \<not> assigned ! j then
          (if ratio fname (filenames ! j) \<ge> threshold
           then (grp @ [file_paths ! j], assigned[j := True])
           else (grp, assigned))
        else (grp, assigned))"

text \<open>The body of the outer loop for one index \<open>i\<close>.\<close>

definition seed_step ::
  "(string \<Rightarrow> string \<Rightarrow> real) \<Rightarrow> real \<Rightarrow> string list \<Rightarrow> string list \<Rightarrow> nat \<Rightarrow>
   string list list \<times> bool list \<Rightarrow> string list list \<times> bool list" where
  "seed_step ratio threshold file_paths filenames i =
     (\<lambda>(groups, assigned).
        if assigned ! i then (groups, assigned)
        else
          (case fold (scan_candidate ratio threshold file_paths filenames (filenames ! i))
                  [i + 1 ..< length filenames]
                  ([file_paths ! i], assigned[i := True]) of
             (grp, assigned') \<Rightarrow> (groups @ [grp], assigned')))"

definition group_similar_filenames ::
  "(string \<Rightarrow> string \<Rightarrow> real) \<Rightarrow> string list \<Rightarrow> real \<Rightarrow> string list list" where
  "group_similar_filenames ratio file_paths threshold =
     (let filenames = map basename file_paths
      in fst (fold (seed_step ratio threshold file_paths filenames)
                [0 ..< length filenames]
                ([], replicate (length filenames) False)))"

section \<open>\<open>os.path\<close> and \<open>str\<close> helpers of \<open>data_processing.py\<close>\<close>

text \<open>\<open>os.path.join(a, b)\<close>.\<close>

definition path_join :: "string \<Rightarrow> string \<Rightarrow> string" where
  "path_join a b =
     (if b \<noteq> [] \<and> hd b = CHR ''/'' then b
      else if a = [] \<or> last a = CHR ''/'' then a @ b
      else a @ ''/'' @ b)"

text \<open>
  \<open>os.path.dirname\<close>: the head up to and including the last separator, with its trailing
  separators removed unless it consists of separators only.
\<close>

definition dirname :: "string \<Rightarrow> string" where
  "dirname p =
     (let head = rev (dropWhile (\<lambda>c. c \<noteq> CHR ''/'') (rev p))
      in if head \<noteq> [] \<and> \<not> list_all (\<lambda>c. c = CHR ''/'') head
         then rev (dropWhile (\<lambda>c. c = CHR ''/'') (rev head))
         else head)"

text \<open>
  \<open>os.path.splitext(p)[1]\<close>: the extension starts at the last dot of the last path
  component, provided a character other than a dot precedes it in that component.
\<close>

definition splitext_ext :: "string \<Rightarrow> string" where
  "splitext_ext p =
     (let base = basename p;
          stem = rev (tl (dropWhile (\<lambda>c. c \<noteq> CHR ''.'') (rev base)))
      in if CHR ''.'' \<in> set base \<and> list_ex (\<lambda>c. c \<noteq> CHR ''.'') stem
         then CHR ''.'' # rev (takeWhile (\<lambda>c. c \<noteq> CHR ''.'') (rev base))
         else [])"

text \<open>A text between apostrophes, as \<open>'{source}'\<close> in an f-string and in some messages.\<close>

definition quoted :: "string \<Rightarrow> string" where
  "quoted p = [CHR 0x27] @ p @ [CHR 0x27]"

text \<open>\<open>str(n)\<close> for a non-negative integer: its decimal digits.\<close>

definition digit_char :: "nat \<Rightarrow> char" where
  "digit_char d = ''0123456789'' ! d"

fun str_nat :: "nat \<Rightarrow> string" where
  "str_nat n = (if n < 10 then [digit_char n] else str_nat (n div 10) @ [digit_char (n mod 10)])"

declare str_nat.simps [simp del]

section \<open>The operating system as a parameter\<close>

text \<open>
  Exceptions are values. \<open>OSError\<close> stands for the class and its subclasses
  (\<open>FileNotFoundError\<close>, \<open>FileExistsError\<close>, \<open>PermissionError\<close>, ...) and carries the text
  of \<open>str(e)\<close>.
\<close>

datatype exn = OSError string | KeyError string | TypeError string


text \<open>
  The calls into \<open>os\<close> that the planner and the executor make, over an arbitrary type
  \<open>'fs\<close> of file system states. A call that changes the file system returns the exception
  it raised, if any, and the state it leaves behind; a query returns its answer.
  \<open>os_makedirs\<close> is \<open>os.makedirs(p, exist_ok=True)\<close>; \<open>append_line f text\<close> is
  \<open>open(f, 'a')\<close> followed by \<open>write(text)\<close>.
\<close>

record 'fs os =
  os_makedirs :: "string \<Rightarrow> 'fs \<Rightarrow> exn option \<times> 'fs"
  os_link :: "string \<Rightarrow> string \<Rightarrow> 'fs \<Rightarrow> exn option \<times> 'fs"
  os_symlink :: "string \<Rightarrow> string \<Rightarrow> 'fs \<Rightarrow> exn option \<times> 'fs"
  os_path_exists :: "string \<Rightarrow> 'fs \<Rightarrow> bool"
  os_path_isdir :: "string \<Rightarrow> 'fs \<Rightarrow> bool"
  os_stat_dev :: "string \<Rightarrow> 'fs \<Rightarrow> exn + nat"
  append_line :: "string \<Rightarrow> string \<Rightarrow> 'fs \<Rightarrow> exn option \<times> 'fs"

section \<open>\<open>data_processing.py\<close>: \<open>compute_operations\<close>\<close>

text \<open>
  A metadata record is a dictionary. \<open>file_path\<close> is always a string; the keys
  \<open>foldername\<close> and \<open>filename\<close> may be absent (\<open>None\<close> here) or hold Python's \<open>None\<close>
  (\<open>Some PyNone\<close>) or a string.
\<close>

datatype pyval = PyNone | PyStr string

record file_record =
  file_path :: string
  foldername :: "pyval option"
  filename :: "pyval option"

record operation =
  source :: string
  destination :: string
  link_type :: string
  folder_name :: string
  new_file_name :: string

record planning_state =
  renamed_files :: "string set"
  processed_files :: "string set"

text \<open>
  The \<open>while\<close> loop of lines 331 to 336. \<open>taken p\<close> is the loop condition
  \<open>p in renamed_files or os.path.exists(p)\<close>; the loop has no bound, so it is a partial
  function and \<open>None\<close> means that it does not return.
\<close>

partial_function (option) handle_duplicates ::
  "(string \<Rightarrow> bool) \<Rightarrow> string \<Rightarrow> string \<Rightarrow> string \<Rightarrow> nat \<Rightarrow> string \<Rightarrow> string \<Rightarrow>
   (string \<times> string) option" where
  "handle_duplicates taken dir_path fname ext counter name new_file_path =
     (if taken new_file_path
      then handle_duplicates taken dir_path fname ext (counter + 1)
             (fname @ ''_'' @ str_nat counter @ ext)
             (path_join dir_path (fname @ ''_'' @ str_nat counter @ ext))
      else Some (name, new_file_path))"

text \<open>
  Lines 338 to 347: the link type for a source and the destination found, or the exception
  that \<open>os.stat\<close> raises.
\<close>

definition choose_link_type :: "'fs os \<Rightarrow> string \<Rightarrow> string \<Rightarrow> 'fs \<Rightarrow> exn + string" where
  "choose_link_type os src new_file_path s =
     (if os_path_isdir os src s then Inr ''symlink''
      else
        (case os_stat_dev os src s of
           Inl e \<Rightarrow> Inl e
         | Inr source_dev \<Rightarrow>
             (case os_stat_dev os (dirname new_file_path) s of
                Inl e \<Rightarrow> Inl e
              | Inr dest_dev \<Rightarrow>
                  if source_dev = dest_dev then Inr ''hardlink'' else Inr ''symlink'')))"

text \<open>
  Lines 324 to 356, once \<open>data['foldername']\<close> and \<open>data['filename']\<close> are known to be the
  strings \<open>folder_str\<close> and \<open>fname\<close>: the target directory is created, a free destination
  is searched for, the link type is chosen and the operation is recorded.
\<close>

definition plan_paths ::
  "'fs os \<Rightarrow> string \<Rightarrow> string set \<Rightarrow> string \<Rightarrow> string \<Rightarrow> string \<Rightarrow> 'fs \<Rightarrow>
   ((exn + operation) \<times> 'fs) option" where
  "plan_paths os new_path renamed src folder_str fname s =
     (let ext = splitext_ext src;
          dir_path = path_join new_path folder_str
      in case os_makedirs os dir_path s of
           (Some e, s1) \<Rightarrow> Some (Inl e, s1)
         | (None, s1) \<Rightarrow>
             (case handle_duplicates (\<lambda>p. p \<in> renamed \<or> os_path_exists os p s1)
                     dir_path fname ext 1 (fname @ ext) (path_join dir_path (fname @ ext)) of
                None \<Rightarrow> None
              | Some (name, new_file_path) \<Rightarrow>
                  (case choose_link_type os src new_file_path s1 of
                     Inl e \<Rightarrow> Some (Inl e, s1)
                   | Inr lt \<Rightarrow>
                       Some (Inr \<lparr>source = src, destination = new_file_path, link_type = lt,
                                  folder_name = folder_str, new_file_name = name\<rparr>, s1))))"

text \<open>
  The body of the \<open>for\<close> loop after the \<open>processed_files\<close> guard (lines 319 to 357), for
  one record: the exception raised or the operation planned, with the file system state
  left behind. A missing key raises \<open>KeyError\<close>; \<open>None + str\<close> and
  \<open>os.path.join(new_path, None)\<close> raise \<open>TypeError\<close>, in the order in which the source
  evaluates them.
\<close>

definition plan_record ::
  "'fs os \<Rightarrow> string \<Rightarrow> string set \<Rightarrow> file_record \<Rightarrow> 'fs \<Rightarrow> ((exn + operation) \<times> 'fs) option" where
  "plan_record os new_path renamed data s =
     (case foldername data of
        None \<Rightarrow> Some (Inl (KeyError ''foldername''), s)
      | Some folder \<Rightarrow>
          (case filename data of
             None \<Rightarrow> Some (Inl (KeyError ''filename''), s)
           | Some PyNone \<Rightarrow>
               Some (Inl (TypeError (''unsupported operand type(s) for +: '' @ quoted ''NoneType'' @
                 '' and '' @ quoted ''str'')), s)
           | Some (PyStr fname) \<Rightarrow>
               (case folder of
                  PyNone \<Rightarrow>
                    Some (Inl (TypeError
                      ''expected str, bytes or os.PathLike object, not NoneType''), s)
                | PyStr folder_str \<Rightarrow>
                    plan_paths os new_path renamed (file_path data) folder_str fname s)))"

text \<open>
  The \<open>for\<close> loop, with the list \<open>operations\<close> built so far. The two sets are mutated
  in place, so the state is returned also when an exception ends the call.
\<close>

fun compute_loop ::
  "'fs os \<Rightarrow> string \<Rightarrow> file_record list \<Rightarrow> operation list \<Rightarrow> planning_state \<Rightarrow> 'fs \<Rightarrow>
   ((exn + operation list) \<times> planning_state \<times> 'fs) option" where
  "compute_loop os new_path [] operations st s = Some (Inr operations, st, s)"
| "compute_loop os new_path (data # data_list) operations st s =
     (if file_path data \<in> processed_files st
      then compute_loop os new_path data_list operations st s
      else
        (let st1 = st\<lparr>processed_files := insert (file_path data) (processed_files st)\<rparr>
         in case plan_record os new_path (renamed_files st1) data s of
              None \<Rightarrow> None
            | Some (Inl e, s1) \<Rightarrow> Some (Inl e, st1, s1)
            | Some (Inr opr, s1) \<Rightarrow>
                compute_loop os new_path data_list (operations @ [opr])
                  (st1\<lparr>renamed_files := insert (destination opr) (renamed_files st1)\<rparr>) s1))"

definition compute_operations ::
  "'fs os \<Rightarrow> file_record list \<Rightarrow> string \<Rightarrow> planning_state \<Rightarrow> 'fs \<Rightarrow>
   ((exn + operation list) \<times> planning_state \<times> 'fs) option" where
  "compute_operations os data_list new_path st s = compute_loop os new_path data_list [] st s"

text \<open>
  Successive calls that share the two sets. Each call has its own record list and
  destination root, and finds the file system in whatever state the environment left it;
  a call that raises returns no operation.
\<close>

fun plan_calls ::
  "'fs os \<Rightarrow> (file_record list \<times> string \<times> 'fs) list \<Rightarrow> planning_state \<Rightarrow>
   operation list list option" where
  "plan_calls os [] st = Some []"
| "plan_calls os ((data_list, new_path, s) # calls) st =
     (case compute_operations os data_list new_path st s of
        None \<Rightarrow> None
      | Some (r, st', s') \<Rightarrow>
          (case plan_calls os calls st' of
             None \<Rightarrow> None
           | Some rest \<Rightarrow> Some ((case r of Inl e \<Rightarrow> [] | Inr operations \<Rightarrow> operations) # rest)))"

section \<open>\<open>data_processing.py\<close>: \<open>execute_operations\<close>\<close>




text \<open>Lines 377 to 380: \<open>os.link\<close> for \<open>hardlink\<close>, \<open>os.symlink\<close> for anything else.\<close>

definition create_link :: "'fs os \<Rightarrow> operation \<Rightarrow> 'fs \<Rightarrow> exn option \<times> 'fs" where
  "create_link os opr s =
     (if link_type opr = ''hardlink''
      then os_link os (source opr) (destination opr) s
      else os_symlink os (source opr) (destination opr) s)"




section \<open>A small file system for running the functions\<close>

text \<open>
  A concrete instance of the operating system, used to evaluate the functions above on
  explicit inputs: the directories, the other entries (regular files and links), the
  mount points with their device numbers (the first matching prefix gives the device of a
  path, device 0 otherwise) and the lines appended to files. Paths are compared as
  strings.
\<close>

record simple_fs =
  fs_dirs :: "string list"
  fs_files :: "string list"
  fs_mounts :: "(string \<times> nat) list"
  fs_log :: "(string \<times> string) list"

definition simple_exists :: "string \<Rightarrow> simple_fs \<Rightarrow> bool" where
  "simple_exists p s \<longleftrightarrow> p \<in> set (fs_dirs s) \<or> p \<in> set (fs_files s)"

definition simple_isdir :: "string \<Rightarrow> simple_fs \<Rightarrow> bool" where
  "simple_isdir p s \<longleftrightarrow> p \<in> set (fs_dirs s)"

definition simple_dev :: "simple_fs \<Rightarrow> string \<Rightarrow> nat" where
  "simple_dev s p =
     (case find (\<lambda>m. take (length (fst m)) p = fst m) (fs_mounts s) of
        None \<Rightarrow> 0
      | Some m \<Rightarrow> snd m)"

definition simple_stat_dev :: "string \<Rightarrow> simple_fs \<Rightarrow> exn + nat" where
  "simple_stat_dev p s =
     (if simple_exists p s then Inr (simple_dev s p)
      else Inl (OSError ''[Errno 2] No such file or directory''))"

text \<open>The path itself and its ancestors: the prefixes that end before a separator.\<close>

definition parents :: "string \<Rightarrow> string list" where
  "parents p = map (\<lambda>i. take i p) (filter (\<lambda>i. i = length p \<or> p ! i = CHR ''/'') [1 ..< Suc (length p)])"

definition simple_makedirs :: "string \<Rightarrow> simple_fs \<Rightarrow> exn option \<times> simple_fs" where
  "simple_makedirs p s =
     (if p = [] then (Some (OSError ''[Errno 2] No such file or directory''), s)
      else if list_ex (\<lambda>q. q \<in> set (fs_files s)) (parents p)
      then (Some (OSError ''[Errno 17] File exists''), s)
      else (None, s\<lparr>fs_dirs := fs_dirs s @ filter (\<lambda>q. q \<notin> set (fs_dirs s)) (parents p)\<rparr>))"

definition simple_link :: "string \<Rightarrow> string \<Rightarrow> simple_fs \<Rightarrow> exn option \<times> simple_fs" where
  "simple_link src dst s =
     (if src \<notin> set (fs_files s) then (Some (OSError ''[Errno 2] No such file or directory''), s)
      else if simple_exists dst s then (Some (OSError ''[Errno 17] File exists''), s)
      else if dirname dst \<noteq> [] \<and> \<not> simple_isdir (dirname dst) s
      then (Some (OSError ''[Errno 2] No such file or directory''), s)
      else if simple_dev s src \<noteq> simple_dev s (dirname dst)
      then (Some (OSError ''[Errno 18] Invalid cross-device link''), s)
      else (None, s\<lparr>fs_files := fs_files s @ [dst]\<rparr>))"

definition simple_symlink :: "string \<Rightarrow> string \<Rightarrow> simple_fs \<Rightarrow> exn option \<times> simple_fs" where
  "simple_symlink src dst s =
     (if simple_exists dst s then (Some (OSError ''[Errno 17] File exists''), s)
      else if dirname dst \<noteq> [] \<and> \<not> simple_isdir (dirname dst) s
      then (Some (OSError ''[Errno 2] No such file or directory''), s)
      else (None, s\<lparr>fs_files := fs_files s @ [dst]\<rparr>))"

definition simple_append :: "string \<Rightarrow> string \<Rightarrow> simple_fs \<Rightarrow> exn option \<times> simple_fs" where
  "simple_append f text s =
     (if simple_isdir f s then (Some (OSError ''[Errno 21] Is a directory''), s)
      else (None, s\<lparr>fs_log := fs_log s @ [(f, text)]\<rparr>))"

definition simple_os :: "simple_fs os" where
  "simple_os =
     \<lparr>os_makedirs = simple_makedirs, os_link = simple_link, os_symlink = simple_symlink,
      os_path_exists = simple_exists, os_path_isdir = simple_isdir,
      os_stat_dev = simple_stat_dev, append_line = simple_append\<rparr>"

text \<open>
  A starting state: an input directory with two files and a subdirectory, an empty output
  directory, and a second device mounted on \<open>mnt\<close>.
\<close>

definition fs0 :: simple_fs where
  "fs0 =
     \<lparr>fs_dirs = [''in'', ''in/sub'', ''out'', ''mnt''],
      fs_files = [''in/a.txt'', ''in/b.txt''],
      fs_mounts = [(''mnt'', 1)],
      fs_log = []\<rparr>"

definition st0 :: planning_state where
  "st0 = \<lparr>renamed_files = {}, processed_files = {}\<rparr>"

text \<open>
  The states, records and operations of the worked examples.
\<close>

definition fs1 :: simple_fs where
  "fs1 = fs0\<lparr>fs_dirs := [''in'', ''in/sub'', ''out'', ''mnt'', ''out/docs'']\<rparr>"

definition rec_a :: file_record where
  "rec_a = \<lparr>file_path = ''in/a.txt'', foldername = Some (PyStr ''docs''),
            filename = Some (PyStr ''foo'')\<rparr>"

definition rec_b :: file_record where
  "rec_b = \<lparr>file_path = ''in/b.txt'', foldername = Some (PyStr ''docs''),
            filename = Some (PyStr ''foo'')\<rparr>"

definition op_a :: operation where
  "op_a = \<lparr>source = ''in/a.txt'', destination = ''out/docs/foo.txt'',
               link_type = ''hardlink'', folder_name = ''docs'', new_file_name = ''foo.txt''\<rparr>"

definition op_b :: operation where
  "op_b = \<lparr>source = ''in/b.txt'', destination = ''out/docs/foo_1.txt'',
               link_type = ''hardlink'', folder_name = ''docs'', new_file_name = ''foo_1.txt''\<rparr>"

definition st2 :: planning_state where
  "st2 = \<lparr>renamed_files = {''out/docs/foo_1.txt'', ''out/docs/foo.txt''},
          processed_files = {''in/b.txt'', ''in/a.txt''}\<rparr>"



definition fs_mnt :: simple_fs where
  "fs_mnt = fs0\<lparr>fs_dirs := [''in'', ''in/sub'', ''out'', ''mnt'', ''mnt/docs'']\<rparr>"

definition rec_dir :: file_record where
  "rec_dir = \<lparr>file_path = ''in/sub'', foldername = Some (PyStr ''docs''),
            filename = Some (PyStr ''foo'')\<rparr>"






text \<open>
  Two more operations for the worked examples: one with a missing source and one whose
  destination directory is a regular file.
\<close>

definition op_missing :: operation where
  "op_missing = \<lparr>source = ''in/zzz.txt'', destination = ''out/docs/zzz.txt'',
      link_type = ''hardlink'', folder_name = ''docs'', new_file_name = ''zzz.txt''\<rparr>"

definition op_blocked :: operation where
  "op_blocked = \<lparr>source = ''in/b.txt'', destination = ''in/a.txt/b.txt'',
      link_type = ''hardlink'', folder_name = ''a.txt'', new_file_name = ''b.txt''\<rparr>"

text \<open>
  For the loop invariant of \<open>group_similar_filenames\<close>: the paths whose \<open>assigned\<close> flag
  is still false, as a multiset.
\<close>

definition unassigned :: "string list \<Rightarrow> bool list \<Rightarrow> string multiset" where
  "unassigned fps a = mset (map (\<lambda>k. fps ! k) (filter (\<lambda>k. \<not> a ! k) [0..<length fps]))"

text \<open>
  For the second loop invariant of \<open>group_similar_filenames\<close>: a path that lies in a
  group has all its positions assigned, and the groups built so far are pairwise disjoint.
\<close>

definition settled :: "string list \<Rightarrow> bool list \<Rightarrow> string list list \<Rightarrow> bool" where
  "settled fps a gs \<longleftrightarrow>
     (\<forall>g\<in>set gs. \<forall>k<length fps. fps ! k \<in> set g \<longrightarrow> a ! k) \<and>
     (\<forall>x y. x < length gs \<and> y < length gs \<and> x \<noteq> y \<longrightarrow> set (gs ! x) \<inter> set (gs ! y) = {})"

text \<open>
  Similarity functions for the worked examples: equality of names, and lengths that
  differ by at most one.
\<close>

definition same_name :: "string \<Rightarrow> string \<Rightarrow> real" where
  "same_name x y = (if x = y then 1 else 0)"

definition near_length :: "string \<Rightarrow> string \<Rightarrow> real" where
  "near_length x y = (if length x \<le> length y + 1 \<and> length y \<le> length x + 1 then 9 / 10 else 1 / 10)"

section \<open>Properties of \<open>clean_category\<close>\<close>

lemma strip_subset: "set (py_strip s) \<subseteq> set s"
  unfolding py_strip_def
  by (metis set_rev set_dropWhileD subsetI)

lemma strip_keeps: "c \<in> set s \<Longrightarrow> \<not> py_isspace c \<Longrightarrow> c \<in> set (py_strip s)"
proof -
  assume c: "c \<in> set s" and n: "\<not> py_isspace c"
  have a: "\<And>xs. c \<in> set xs \<Longrightarrow> c \<in> set (dropWhile py_isspace xs)"
  proof -
    fix xs assume "c \<in> set xs"
    then show "c \<in> set (dropWhile py_isspace xs)"
      using n by (induction xs) auto
  qed
  show ?thesis unfolding py_strip_def using a[OF c] a[of "rev (dropWhile py_isspace s)"] by simp
qed

lemma dropWhile_idem: "dropWhile P (dropWhile P xs) = dropWhile P xs"
  by (induction xs) auto

lemma last_dropWhile: "dropWhile P xs \<noteq> [] \<Longrightarrow> last (dropWhile P xs) = last xs"
  by (induction xs) (auto split: if_splits)

lemma dropWhile_fix: "xs = [] \<or> \<not> P (hd xs) \<Longrightarrow> dropWhile P xs = xs"
  by (cases xs) auto

lemma strip_idem: "py_strip (py_strip s) = py_strip s"
proof -
  define a where "a = dropWhile py_isspace s"
  define b where "b = dropWhile py_isspace (rev a)"
  have hd_b: "b = [] \<or> \<not> py_isspace (hd b)"
    unfolding b_def by (metis hd_dropWhile)
  have last_b: "b = [] \<or> \<not> py_isspace (last b)"
  proof (cases "b = []")
    case True then show ?thesis by simp
  next
    case False
    then have ra: "rev a \<noteq> []" unfolding b_def by (metis dropWhile.simps(1))
    have "last b = last (rev a)" using False unfolding b_def by (rule last_dropWhile)
    then have "last b = hd a" using ra by (simp add: last_rev)
    moreover have "\<not> py_isspace (hd a)" using ra unfolding a_def by (metis hd_dropWhile rev_is_Nil_conv)
    ultimately show ?thesis by simp
  qed
  have 1: "dropWhile py_isspace (rev b) = rev b"
    using last_b by (intro dropWhile_fix) (auto simp: hd_rev)
  have 2: "dropWhile py_isspace b = b"
    using hd_b by (intro dropWhile_fix) auto
  have "py_strip s = rev b" unfolding py_strip_def a_def b_def by simp
  moreover have "py_strip (rev b) = rev b" unfolding py_strip_def using 1 2 by simp
  ultimately show ?thesis by simp
qed

lemma hangul_not_space: "is_hangul c \<Longrightarrow> \<not> py_isspace c"
  by (auto simp: is_hangul_def py_isspace_def)

lemma length_strip: "length (py_strip s) \<le> length s"
  unfolding py_strip_def
  by (metis length_rev length_dropWhile_le le_trans)

lemma sub_label_prefix_short: "length l < length p \<Longrightarrow> sub_label_prefix p l = l"
  unfolding sub_label_prefix_def by auto

lemma sub_folder_glyph_short: "length l < 2 \<Longrightarrow> sub_folder_glyph l = l"
  unfolding sub_folder_glyph_def by auto

lemma clean_category_short:
  assumes "length raw \<le> 1"
  shows "clean_category raw = None"
proof -
  define l0 where "l0 = takeWhile (\<lambda>c. c \<noteq> 0x0A) (py_strip raw)"
  have "length l0 \<le> length (py_strip raw)" unfolding l0_def by (rule length_takeWhile_le)
  then have l0: "length l0 < 2" using length_strip[of raw] assms by linarith
  have s: "sub_label_prefix phrase_example_output (sub_label_prefix phrase_output
       (sub_label_prefix phrase_file_name (sub_folder_glyph
         (sub_label_prefix phrase_enter_answer (sub_label_prefix phrase_answer l0))))) = l0"
    using l0 by (simp add: sub_label_prefix_short sub_folder_glyph_short phrase_answer_def
        phrase_enter_answer_def phrase_file_name_def phrase_output_def phrase_example_output_def)
  define line where "line = filter (\<lambda>c. c \<notin> set reserved_chars) (filter (\<lambda>c. c \<notin> set quote_chars) l0)"
  have "length line \<le> length l0" unfolding line_def
    by (meson length_filter_le le_trans)
  then have "length (py_strip line) < 2" using l0 length_strip[of line] by linarith
  then show ?thesis
    unfolding clean_category_def Let_def l0_def[symmetric] s line_def[symmetric] by simp
qed

lemma lower_cp_fixed: "lower_cp c = d \<Longrightarrow> \<not> (0x61 \<le> d \<and> d \<le> 0x7A) \<Longrightarrow> c = d"
  unfolding lower_cp_def by (auto split: if_splits)

lemma py_lower_fixed:
  "py_lower s = w \<Longrightarrow> \<forall>d \<in> set w. \<not> (0x61 \<le> d \<and> d \<le> 0x7A) \<Longrightarrow> s = w"
  unfolding py_lower_def
proof (induction s arbitrary: w)
  case Nil then show ?case by simp
next
  case (Cons c s)
  then obtain d w' where w: "w = d # w'" "lower_cp c = d" "map lower_cp s = w'" by auto
  then have "c = d" using Cons.prems(2) lower_cp_fixed by auto
  moreover have "s = w'" using Cons.IH[OF w(3)] Cons.prems(2) w(1) by auto
  ultimately show ?case using w(1) by simp
qed

lemma py_lower_hangul: "list_ex is_hangul s \<Longrightarrow> list_ex is_hangul (py_lower s)"
  unfolding py_lower_def list_ex_iff is_hangul_def lower_cp_def by force

lemma lower_banned:
  assumes "list_ex is_hangul s" "py_lower s \<in> set banned_words"
  shows "s \<in> set banned_words"
proof -
  have h: "list_ex is_hangul (py_lower s)" using assms(1) by (rule py_lower_hangul)
  have nu: "py_lower s \<noteq> [0x75, 0x6E, 0x6B, 0x6E, 0x6F, 0x77, 0x6E]"
  proof
    assume "py_lower s = [0x75, 0x6E, 0x6B, 0x6E, 0x6F, 0x77, 0x6E]"
    then show False using h by (simp add: is_hangul_def)
  qed
  have "\<forall>d \<in> set (py_lower s). \<not> (0x61 \<le> d \<and> d \<le> 0x7A)"
    using assms(2) nu by (auto simp: banned_words_def word_gita_def word_moreum_def)
  then have "s = py_lower s" using py_lower_fixed by blast
  then show ?thesis using assms(2) by simp
qed

lemma after_docx_no_quote: "0x22 \<notin> set xs \<Longrightarrow> after_docx xs = None"
proof (induction xs)
  case Nil then show ?case by simp
next
  case (Cons c cs)
  have "take 6 (c # cs) \<noteq> docx_quote"
  proof
    assume e: "take 6 (c # cs) = docx_quote"
    have "0x22 \<in> set docx_quote" by (simp add: docx_quote_def)
    then have "0x22 \<in> set (take 6 (c # cs))" using e by simp
    then have "0x22 \<in> set (c # cs)" by (rule in_set_takeD)
    then show False using Cons.prems by simp
  qed
  then show ?case using Cons by simp
qed

lemma dropWhile_length_fix:
  assumes "length (dropWhile P xs) = length xs"
  shows "dropWhile P xs = xs"
proof (cases xs)
  case Nil
  then show ?thesis by simp
next
  case (Cons x ys)
  show ?thesis
  proof (cases "P x")
    case True
    have "length (dropWhile P ys) \<le> length ys" by (rule length_dropWhile_le)
    then show ?thesis using True Cons assms by simp
  next
    case False
    then show ?thesis using Cons by simp
  qed
qed

lemma trimmed_iff:
  "py_strip t = t \<longleftrightarrow> t = [] \<or> (\<not> py_isspace (hd t) \<and> \<not> py_isspace (last t))"
proof
  assume e: "py_strip t = t"
  show "t = [] \<or> (\<not> py_isspace (hd t) \<and> \<not> py_isspace (last t))"
  proof (cases "t = []")
    case True
    then show ?thesis by simp
  next
    case False
    define a where "a = dropWhile py_isspace t"
    define b where "b = dropWhile py_isspace (rev a)"
    have t: "t = rev b" using e unfolding py_strip_def a_def b_def by simp
    then have bne: "b \<noteq> []" using False by auto
    have "\<not> py_isspace (hd b)" using bne unfolding b_def by (metis hd_dropWhile)
    then have l: "\<not> py_isspace (last t)" using t bne by (simp add: last_rev)
    have "length a \<le> length t" unfolding a_def by (rule length_dropWhile_le)
    moreover have "length b \<le> length a" unfolding b_def
      by (metis length_dropWhile_le length_rev)
    moreover have "length t = length b" using t by simp
    ultimately have "length a = length t" by simp
    then have "a = t" unfolding a_def by (rule dropWhile_length_fix)
    then have "\<not> py_isspace (hd t)" using False unfolding a_def by (metis hd_dropWhile)
    then show ?thesis using l by simp
  qed
next
  assume h: "t = [] \<or> (\<not> py_isspace (hd t) \<and> \<not> py_isspace (last t))"
  show "py_strip t = t"
  proof (cases "t = []")
    case True
    then show ?thesis by (simp add: py_strip_def)
  next
    case False
    then have 1: "dropWhile py_isspace t = t" using h by (intro dropWhile_fix) simp
    have "\<not> py_isspace (hd (rev t))" using h False by (simp add: hd_rev)
    then have 2: "dropWhile py_isspace (rev t) = rev t" by (intro dropWhile_fix) simp
    show ?thesis unfolding py_strip_def 1 2 by simp
  qed
qed

lemma last_drop: "drop n t \<noteq> [] \<Longrightarrow> last (drop n t) = last t"
  by (metis append_take_drop_id last_appendR)

lemma drop_colon_cases: "drop_colon u = u \<or> drop_colon u = tl u"
  unfolding drop_colon_def by (cases u) auto

lemma sub_label_prefix_suffix:
  "sub_label_prefix p t = t \<or>
   (set (sub_label_prefix p t) \<subseteq> set t \<and>
    (sub_label_prefix p t = [] \<or>
     (\<not> py_isspace (hd (sub_label_prefix p t)) \<and> last (sub_label_prefix p t) = last t)))"
proof (cases "take (length p) t = p")
  case False
  then show ?thesis unfolding sub_label_prefix_def by simp
next
  case True
  define u where "u = drop (length p) t"
  define v where "v = drop_colon u"
  define r where "r = dropWhile py_isspace v"
  have r: "sub_label_prefix p t = r" unfolding sub_label_prefix_def r_def v_def u_def
    using True by simp
  have sv: "set v \<subseteq> set u" using drop_colon_cases[of u] unfolding v_def
    by (metis list.set_sel(2) subsetI subset_refl tl_Nil)
  have "set r \<subseteq> set v" unfolding r_def by (meson set_dropWhileD subsetI)
  moreover have "set u \<subseteq> set t" unfolding u_def by (rule set_drop_subset)
  ultimately have s: "set r \<subseteq> set t" using sv by blast
  have t: "r = [] \<or> (\<not> py_isspace (hd r) \<and> last r = last t)"
  proof (cases "r = []")
    case True
    then show ?thesis by simp
  next
    case False
    then have vne: "v \<noteq> []" unfolding r_def by auto
    then have une: "u \<noteq> []" unfolding v_def drop_colon_def by auto
    have "last r = last v" using False unfolding r_def by (rule last_dropWhile)
    moreover have "last v = last u"
      using drop_colon_cases[of u] vne unfolding v_def by (metis last_tl)
    moreover have "last u = last t" using une unfolding u_def by (rule last_drop)
    moreover have "\<not> py_isspace (hd r)" using False unfolding r_def by (metis hd_dropWhile)
    ultimately show ?thesis by simp
  qed
  show ?thesis unfolding r using s t by blast
qed

lemma sub_label_prefix_keeps:
  assumes "py_strip t = t"
  shows "py_strip (sub_label_prefix p t) = sub_label_prefix p t \<and>
         set (sub_label_prefix p t) \<subseteq> set t"
proof -
  from sub_label_prefix_suffix[of p t] show ?thesis
  proof
    assume "sub_label_prefix p t = t"
    then show ?thesis using assms by simp
  next
    assume a: "set (sub_label_prefix p t) \<subseteq> set t \<and>
      (sub_label_prefix p t = [] \<or>
       (\<not> py_isspace (hd (sub_label_prefix p t)) \<and> last (sub_label_prefix p t) = last t))"
    have "sub_label_prefix p t = [] \<or>
       (\<not> py_isspace (hd (sub_label_prefix p t)) \<and> \<not> py_isspace (last (sub_label_prefix p t)))"
    proof (cases "sub_label_prefix p t = []")
      case True
      then show ?thesis by simp
    next
      case False
      then have "t \<noteq> []" using a by auto
      then have "\<not> py_isspace (last t)" using assms trimmed_iff[of t] by simp
      then show ?thesis using a False by simp
    qed
    then show ?thesis using a trimmed_iff[of "sub_label_prefix p t"] by simp
  qed
qed

lemma sub_folder_glyph_no_quote: "0x22 \<notin> set t \<Longrightarrow> sub_folder_glyph t = t"
proof -
  assume "0x22 \<notin> set t"
  then have "0x22 \<notin> set (drop 2 t)" by (auto dest: in_set_dropD)
  then show ?thesis unfolding sub_folder_glyph_def by (simp add: after_docx_no_quote)
qed

lemma banned_lower: "r \<in> set banned_words \<Longrightarrow> py_lower r = r"
  by (auto simp: banned_words_def word_gita_def word_moreum_def py_lower_def lower_cp_def)

lemma clean_category_of_clean:
  assumes c: "is_clean_label s"
  shows "clean_category s =
    (let r = strip_label_phrases s
     in if list_ex is_hangul r \<and> r \<notin> set banned_words \<and> 2 \<le> length r then Some r else None)"
proof -
  have st: "py_strip s = s" and nl: "0x0A \<notin> set s"
    and q: "\<forall>c \<in> set s. c \<notin> set quote_chars \<and> c \<notin> set reserved_chars"
    using c unfolding is_clean_label_def by auto
  have l0: "takeWhile (\<lambda>c. c \<noteq> 0x0A) s = s"
    using nl by (auto intro: takeWhile_eq_all_conv[THEN iffD2])
  define l1 where "l1 = sub_label_prefix phrase_answer s"
  define l2 where "l2 = sub_label_prefix phrase_enter_answer l1"
  define l4 where "l4 = sub_label_prefix phrase_file_name l2"
  define l5 where "l5 = sub_label_prefix phrase_output l4"
  define r where "r = sub_label_prefix phrase_example_output l5"
  have k1: "py_strip l1 = l1 \<and> set l1 \<subseteq> set s"
    unfolding l1_def using st by (rule sub_label_prefix_keeps)
  have k2: "py_strip l2 = l2 \<and> set l2 \<subseteq> set l1"
    unfolding l2_def using k1 by (intro sub_label_prefix_keeps) simp
  have k4: "py_strip l4 = l4 \<and> set l4 \<subseteq> set l2"
    unfolding l4_def using k2 by (intro sub_label_prefix_keeps) simp
  have k5: "py_strip l5 = l5 \<and> set l5 \<subseteq> set l4"
    unfolding l5_def using k4 by (intro sub_label_prefix_keeps) simp
  have kr: "py_strip r = r \<and> set r \<subseteq> set l5"
    unfolding r_def using k5 by (intro sub_label_prefix_keeps) simp
  have sub2: "set l2 \<subseteq> set s" using k1 k2 by blast
  have subr: "set r \<subseteq> set s" using kr k5 k4 sub2 by blast
  have "0x22 \<notin> set s" using q by (auto simp: quote_chars_def)
  then have "0x22 \<notin> set l2" using sub2 by blast
  then have g: "sub_folder_glyph l2 = l2" by (rule sub_folder_glyph_no_quote)
  have f1: "filter (\<lambda>c. c \<notin> set quote_chars) r = r"
    using q subr by (simp add: filter_id_conv subset_iff)
  have f2: "filter (\<lambda>c. c \<notin> set reserved_chars) r = r"
    using q subr by (simp add: filter_id_conv subset_iff)
  have sr: "py_strip r = r" using kr by simp
  have rr: "strip_label_phrases s = r"
    unfolding strip_label_phrases_def r_def l5_def l4_def l2_def l1_def by (rule refl)
  have cc: "clean_category s =
      (if \<not> list_ex is_hangul r then None
       else if r = [] \<or> py_lower r \<in> set banned_words \<or> length r < 2 then None
       else Some r)"
    unfolding clean_category_def Let_def st l0 l1_def[symmetric] l2_def[symmetric] g
      l4_def[symmetric] l5_def[symmetric] r_def[symmetric] f1 f2 sr by (rule refl)
  have b: "list_ex is_hangul r \<Longrightarrow> (py_lower r \<in> set banned_words) = (r \<in> set banned_words)"
    using lower_banned[of r] banned_lower[of r] by auto
  show ?thesis unfolding rr Let_def cc using b by (cases "list_ex is_hangul r") auto
qed

lemma strip_label_phrases_none:
  "\<not> starts_with_label_phrase s \<Longrightarrow> strip_label_phrases s = s"
  unfolding starts_with_label_phrase_def label_phrases_def strip_label_phrases_def
    sub_label_prefix_def
  by simp

lemma clean_gita: "is_clean_label word_gita"
  unfolding is_clean_label_def
proof (intro conjI)
  show "py_strip word_gita = word_gita"
    by (simp add: py_strip_def word_gita_def py_isspace_def)
  show "0x0A \<notin> set word_gita" by (simp add: word_gita_def)
  show "\<forall>c\<in>set word_gita. c \<notin> set quote_chars \<and> c \<notin> set reserved_chars"
    by (simp add: word_gita_def quote_chars_def reserved_chars_def)
qed

lemma clean_moreum: "is_clean_label word_moreum"
  unfolding is_clean_label_def
proof (intro conjI)
  show "py_strip word_moreum = word_moreum"
    by (simp add: py_strip_def word_moreum_def py_isspace_def)
  show "0x0A \<notin> set word_moreum" by (simp add: word_moreum_def)
  show "\<forall>c\<in>set word_moreum. c \<notin> set quote_chars \<and> c \<notin> set reserved_chars"
    by (simp add: word_moreum_def quote_chars_def reserved_chars_def)
qed

lemma strip_gita: "strip_label_phrases word_gita = word_gita"
  by (rule strip_label_phrases_none)
     (simp add: starts_with_label_phrase_def label_phrases_def word_gita_def phrase_answer_def
       phrase_enter_answer_def phrase_file_name_def phrase_output_def phrase_example_output_def)

lemma strip_moreum: "strip_label_phrases word_moreum = word_moreum"
  by (rule strip_label_phrases_none)
     (simp add: starts_with_label_phrase_def label_phrases_def word_moreum_def phrase_answer_def
       phrase_enter_answer_def phrase_file_name_def phrase_output_def phrase_example_output_def)

lemma clean_hangul_word: "\<forall>c\<in>set s. is_hangul c \<Longrightarrow> is_clean_label s"
proof -
  assume h: "\<forall>c\<in>set s. is_hangul c"
  have ns: "\<forall>c\<in>set s. \<not> py_isspace c" using h hangul_not_space by blast
  have 1: "py_strip s = s"
  proof (cases "s = []")
    case True
    then show ?thesis by (simp add: py_strip_def)
  next
    case False
    then have "\<not> py_isspace (hd s) \<and> \<not> py_isspace (last s)" using ns by simp
    then show ?thesis using trimmed_iff[of s] by simp
  qed
  have 2: "0x0A \<notin> set s" using h by (auto simp: is_hangul_def)
  have 3: "\<forall>c\<in>set s. c \<notin> set quote_chars \<and> c \<notin> set reserved_chars"
    using h by (auto simp: is_hangul_def quote_chars_def reserved_chars_def)
  show ?thesis unfolding is_clean_label_def using 1 2 3 by blast
qed

text \<open>
  C9, as the code has it. \<open>clean_category\<close> returns \<open>None\<close> for the two words U+AE30 U+D0C0
  and U+BAA8 U+B984, for the empty string and for every string of one character. On a
  clean input it removes the leading label phrases (lines 29 to 34) and judges what
  remains: the remainder is returned when it contains a Hangul syllable, is not a banned
  word and has at least two characters, and \<open>None\<close> is returned otherwise. In particular
  a clean input of at least two characters that contains a Hangul syllable, is not a
  banned word and does not begin with a label phrase is returned as it is.
\<close>

theorem clean_category_accepts_and_rejects:
  "clean_category word_gita = None \<and> clean_category word_moreum = None \<and>
   clean_category [] = None \<and> (\<forall>c. clean_category [c] = None) \<and>
   (\<forall>s. is_clean_label s \<longrightarrow>
        clean_category s =
          (let r = strip_label_phrases s
           in if list_ex is_hangul r \<and> r \<notin> set banned_words \<and> 2 \<le> length r
              then Some r else None)) \<and>
   (\<forall>s. is_clean_label s \<and> \<not> starts_with_label_phrase s \<and> 2 \<le> length s \<and>
        list_ex is_hangul s \<and> s \<notin> set banned_words
        \<longrightarrow> clean_category s = Some s)"
proof (intro conjI allI impI)
  show "clean_category word_gita = None"
    by (simp add: clean_category_of_clean[OF clean_gita] strip_gita banned_words_def)
  show "clean_category word_moreum = None"
    by (simp add: clean_category_of_clean[OF clean_moreum] strip_moreum banned_words_def)
  show "clean_category [] = None" by (rule clean_category_short) simp
  show "clean_category [c] = None" for c by (rule clean_category_short) simp
next
  fix s assume "is_clean_label s"
  then show "clean_category s =
          (let r = strip_label_phrases s
           in if list_ex is_hangul r \<and> r \<notin> set banned_words \<and> 2 \<le> length r
              then Some r else None)"
    by (rule clean_category_of_clean)
next
  fix s
  assume a: "is_clean_label s \<and> \<not> starts_with_label_phrase s \<and> 2 \<le> length s \<and>
        list_ex is_hangul s \<and> s \<notin> set banned_words"
  then have r: "strip_label_phrases s = s" using strip_label_phrases_none by blast
  have c: "is_clean_label s" using a by blast
  show "clean_category s = Some s"
    unfolding clean_category_of_clean[OF c] r Let_def using a by simp
qed

text \<open>
  C9 as stated fails: the three-character word U+CD9C U+B825 U+BB3C is clean, contains
  Hangul and is not banned, but it begins with the phrase of line 33; the phrase is
  removed, one character remains, and the result is \<open>None\<close>.
\<close>

theorem clean_label_rejected_counterexample:
  "is_clean_label [0xCD9C, 0xB825, 0xBB3C] \<and> 2 \<le> length [0xCD9C, 0xB825, 0xBB3C :: nat] \<and>
   list_ex is_hangul [0xCD9C, 0xB825, 0xBB3C] \<and> [0xCD9C, 0xB825, 0xBB3C] \<notin> set banned_words \<and>
   clean_category [0xCD9C, 0xB825, 0xBB3C] = None"
proof -
  have c: "is_clean_label [0xCD9C, 0xB825, 0xBB3C]"
    by (rule clean_hangul_word) (simp add: is_hangul_def)
  have s1: "sub_label_prefix phrase_answer [0xCD9C, 0xB825, 0xBB3C] = [0xCD9C, 0xB825, 0xBB3C]"
    by (simp add: sub_label_prefix_def phrase_answer_def)
  have s2: "sub_label_prefix phrase_enter_answer [0xCD9C, 0xB825, 0xBB3C] = [0xCD9C, 0xB825, 0xBB3C]"
    by (simp add: sub_label_prefix_def phrase_enter_answer_def)
  have s3: "sub_label_prefix phrase_file_name [0xCD9C, 0xB825, 0xBB3C] = [0xCD9C, 0xB825, 0xBB3C]"
    by (simp add: sub_label_prefix_def phrase_file_name_def)
  have s4: "sub_label_prefix phrase_output [0xCD9C, 0xB825, 0xBB3C] = [0xBB3C]"
    by (simp add: sub_label_prefix_def phrase_output_def drop_colon_def py_isspace_def)
  have s5: "sub_label_prefix phrase_example_output [0xBB3C] = [0xBB3C]"
    by (simp add: sub_label_prefix_def phrase_example_output_def)
  have r: "strip_label_phrases [0xCD9C, 0xB825, 0xBB3C] = [0xBB3C]"
    unfolding strip_label_phrases_def s1 s2 s3 s4 s5 by (rule refl)
  have n: "clean_category [0xCD9C, 0xB825, 0xBB3C] = None"
    unfolding clean_category_of_clean[OF c] r Let_def by simp
  have h: "list_ex is_hangul [0xCD9C, 0xB825, 0xBB3C]" by (simp add: is_hangul_def)
  have b: "[0xCD9C, 0xB825, 0xBB3C] \<notin> set banned_words"
    by (simp add: banned_words_def word_gita_def word_moreum_def)
  have l: "2 \<le> length [0xCD9C, 0xB825, 0xBB3C :: nat]" by simp
  show ?thesis using c l h b n by blast
qed

text \<open>
  A label without a phrase is returned as it is; a label behind the phrase of line 29 is
  returned without the phrase.
\<close>

theorem clean_category_accepts_and_rejects_witness:
  "2 \<le> length [0xC0AC, 0xC9C4 :: nat] \<and> list_ex is_hangul [0xC0AC, 0xC9C4] \<and>
   [0xC0AC, 0xC9C4] \<notin> set banned_words \<and>
   clean_category [0xC0AC, 0xC9C4] = Some [0xC0AC, 0xC9C4] \<and>
   clean_category [0xB2F5, 0xBCC0, 0xC11C, 0xB958] = Some [0xC11C, 0xB958]"
proof -
  have a: "is_clean_label [0xC0AC, 0xC9C4]"
    by (rule clean_hangul_word) (simp add: is_hangul_def)
  have p: "\<not> starts_with_label_phrase [0xC0AC, 0xC9C4]"
    by (simp add: starts_with_label_phrase_def label_phrases_def phrase_answer_def
        phrase_enter_answer_def phrase_file_name_def phrase_output_def
        phrase_example_output_def)
  have b: "list_ex is_hangul [0xC0AC, 0xC9C4]" by (simp add: is_hangul_def)
  have c: "[0xC0AC, 0xC9C4] \<notin> set banned_words"
    by (simp add: banned_words_def word_gita_def word_moreum_def)
  have d: "2 \<le> length [0xC0AC, 0xC9C4 :: nat]" by simp
  have 1: "clean_category [0xC0AC, 0xC9C4] = Some [0xC0AC, 0xC9C4]"
    using a p b c d clean_category_accepts_and_rejects by blast
  have a2: "is_clean_label [0xB2F5, 0xBCC0, 0xC11C, 0xB958]"
    by (rule clean_hangul_word) (simp add: is_hangul_def)
  have s1: "sub_label_prefix phrase_answer [0xB2F5, 0xBCC0, 0xC11C, 0xB958] = [0xC11C, 0xB958]"
    by (simp add: sub_label_prefix_def phrase_answer_def drop_colon_def py_isspace_def)
  have s2: "sub_label_prefix phrase_enter_answer [0xC11C, 0xB958] = [0xC11C, 0xB958]"
    by (simp add: sub_label_prefix_def phrase_enter_answer_def)
  have s3: "sub_label_prefix phrase_file_name [0xC11C, 0xB958] = [0xC11C, 0xB958]"
    by (simp add: sub_label_prefix_def phrase_file_name_def)
  have s4: "sub_label_prefix phrase_output [0xC11C, 0xB958] = [0xC11C, 0xB958]"
    by (simp add: sub_label_prefix_def phrase_output_def)
  have s5: "sub_label_prefix phrase_example_output [0xC11C, 0xB958] = [0xC11C, 0xB958]"
    by (simp add: sub_label_prefix_def phrase_example_output_def)
  have r: "strip_label_phrases [0xB2F5, 0xBCC0, 0xC11C, 0xB958] = [0xC11C, 0xB958]"
    unfolding strip_label_phrases_def s1 s2 s3 s4 s5 by (rule refl)
  have t: "clean_category [0xB2F5, 0xBCC0, 0xC11C, 0xB958] =
      (let r = strip_label_phrases [0xB2F5, 0xBCC0, 0xC11C, 0xB958]
       in if list_ex is_hangul r \<and> r \<notin> set banned_words \<and> 2 \<le> length r
          then Some r else None)"
    using a2 clean_category_accepts_and_rejects by blast
  have 2: "clean_category [0xB2F5, 0xBCC0, 0xC11C, 0xB958] = Some [0xC11C, 0xB958]"
    unfolding t r Let_def
    by (simp add: is_hangul_def banned_words_def word_gita_def word_moreum_def)
  show ?thesis using b c d 1 2 by blast
qed

lemma clean_category_messy_example: "clean_category [0x20, 0xCD9C, 0xB825, 0x3A, 0x20, 0xC0AC, 0xC9C4, 0x22, 0x0A, 0xAC00]
   = Some [0xC0AC, 0xC9C4]"
proof -
  have 0: "takeWhile (\<lambda>c. c \<noteq> 0x0A) (py_strip [0x20, 0xCD9C, 0xB825, 0x3A, 0x20, 0xC0AC, 0xC9C4, 0x22, 0x0A, 0xAC00])
    = [0xCD9C, 0xB825, 0x3A, 0x20, 0xC0AC, 0xC9C4, 0x22]"
    by (simp add: py_strip_def py_isspace_def)
  have 1: "sub_label_prefix phrase_answer [0xCD9C, 0xB825, 0x3A, 0x20, 0xC0AC, 0xC9C4, 0x22]
     = [0xCD9C, 0xB825, 0x3A, 0x20, 0xC0AC, 0xC9C4, 0x22]"
    by (simp add: sub_label_prefix_def phrase_answer_def)
  have 2: "sub_label_prefix phrase_enter_answer [0xCD9C, 0xB825, 0x3A, 0x20, 0xC0AC, 0xC9C4, 0x22]
     = [0xCD9C, 0xB825, 0x3A, 0x20, 0xC0AC, 0xC9C4, 0x22]"
    by (simp add: sub_label_prefix_def phrase_enter_answer_def)
  have 3: "sub_folder_glyph [0xCD9C, 0xB825, 0x3A, 0x20, 0xC0AC, 0xC9C4, 0x22]
     = [0xCD9C, 0xB825, 0x3A, 0x20, 0xC0AC, 0xC9C4, 0x22]"
    by (simp add: sub_folder_glyph_def)
  have 4: "sub_label_prefix phrase_file_name [0xCD9C, 0xB825, 0x3A, 0x20, 0xC0AC, 0xC9C4, 0x22]
     = [0xCD9C, 0xB825, 0x3A, 0x20, 0xC0AC, 0xC9C4, 0x22]"
    by (simp add: sub_label_prefix_def phrase_file_name_def)
  have 5: "sub_label_prefix phrase_output [0xCD9C, 0xB825, 0x3A, 0x20, 0xC0AC, 0xC9C4, 0x22]
     = [0xC0AC, 0xC9C4, 0x22]"
    by (simp add: sub_label_prefix_def phrase_output_def drop_colon_def py_isspace_def)
  have 6: "sub_label_prefix phrase_example_output [0xC0AC, 0xC9C4, 0x22] = [0xC0AC, 0xC9C4, 0x22]"
    by (simp add: sub_label_prefix_def phrase_example_output_def)
  have 7: "filter (\<lambda>c. c \<notin> set quote_chars) [0xC0AC, 0xC9C4, 0x22] = [0xC0AC, 0xC9C4]"
    by (simp add: quote_chars_def)
  have 8: "filter (\<lambda>c. c \<notin> set reserved_chars) [0xC0AC, 0xC9C4] = [0xC0AC, 0xC9C4]"
    by (simp add: reserved_chars_def)
  have 9: "list_ex is_hangul [0xC0AC, 0xC9C4]" by (simp add: is_hangul_def)
  have 10: "py_lower [0xC0AC, 0xC9C4] \<notin> set banned_words"
    by (simp add: py_lower_def lower_cp_def banned_words_def word_gita_def word_moreum_def)
  have 11: "py_strip [0xC0AC, 0xC9C4] = [0xC0AC, 0xC9C4]"
    by (simp add: py_strip_def py_isspace_def)
  show ?thesis
    unfolding clean_category_def Let_def 0 1 2 3 4 5 6 7 8 11 using 9 10 by simp
qed

text \<open>
  C10. Whenever \<open>clean_category\<close> returns a label, the label is trimmed, has at least two
  characters, contains a Hangul syllable, and contains none of the reserved characters
  \<open>\ / : * ? " < > |\<close> and no double or curly quote.
\<close>

theorem clean_category_postcondition:
  assumes "clean_category raw = Some r"
  shows "py_strip r = r \<and> 2 \<le> length r \<and> list_ex is_hangul r \<and>
         (\<forall>c \<in> set r. c \<notin> set reserved_chars \<and> c \<notin> set quote_chars)"
proof -
  define l7 where "l7 = filter (\<lambda>c. c \<notin> set quote_chars)
     (sub_label_prefix phrase_example_output (sub_label_prefix phrase_output
       (sub_label_prefix phrase_file_name (sub_folder_glyph
         (sub_label_prefix phrase_enter_answer (sub_label_prefix phrase_answer
           (takeWhile (\<lambda>c. c \<noteq> 0x0A) (py_strip raw))))))))"
  define line where "line = filter (\<lambda>c. c \<notin> set reserved_chars) l7"
  have r: "r = py_strip line" and h: "list_ex is_hangul line" and len: "2 \<le> length (py_strip line)"
    using assms unfolding clean_category_def Let_def line_def l7_def
    by (auto split: if_splits)
  have "\<forall>c \<in> set line. c \<notin> set reserved_chars \<and> c \<notin> set quote_chars"
    unfolding line_def l7_def by auto
  then have 1: "\<forall>c \<in> set r. c \<notin> set reserved_chars \<and> c \<notin> set quote_chars"
    using strip_subset r by blast
  have 2: "list_ex is_hangul r"
    using h r strip_keeps hangul_not_space unfolding list_ex_iff by blast
  show ?thesis using 1 2 r len strip_idem by simp
qed

theorem clean_category_postcondition_witness:
  "clean_category [0x20, 0xCD9C, 0xB825, 0x3A, 0x20, 0xC0AC, 0xC9C4, 0x22, 0x0A, 0xAC00]
     = Some [0xC0AC, 0xC9C4] \<and>
   py_strip [0xC0AC, 0xC9C4] = [0xC0AC, 0xC9C4] \<and> 2 \<le> length [0xC0AC, 0xC9C4 :: nat] \<and>
   list_ex is_hangul [0xC0AC, 0xC9C4]"
proof -
  have e: "clean_category [0x20, 0xCD9C, 0xB825, 0x3A, 0x20, 0xC0AC, 0xC9C4, 0x22, 0x0A, 0xAC00]
     = Some [0xC0AC, 0xC9C4]"
    by (rule clean_category_messy_example)
  show ?thesis using e clean_category_postcondition[OF e] by simp
qed

section \<open>Properties of \<open>compute_operations\<close>\<close>

lemma digit_char_inj: "a < 10 \<Longrightarrow> b < 10 \<Longrightarrow> digit_char a = digit_char b \<Longrightarrow> a = b"
proof -
  assume a: "a < 10" and b: "b < 10" and e: "digit_char a = digit_char b"
  have d: "distinct ''0123456789''" by simp
  have "length ''0123456789'' = 10" by simp
  then show "a = b" using a b e d unfolding digit_char_def
    by (metis nth_eq_iff_index_eq)
qed

lemma str_nat_nonempty: "str_nat n \<noteq> []"
  by (subst str_nat.simps) simp

lemma str_nat_length_ge: "10 \<le> n \<Longrightarrow> 2 \<le> length (str_nat n)"
proof -
  assume "10 \<le> n"
  then have "str_nat n = str_nat (n div 10) @ [digit_char (n mod 10)]"
    by (subst str_nat.simps) simp
  moreover have "1 \<le> length (str_nat (n div 10))"
    using str_nat_nonempty[of "n div 10"] by (cases "str_nat (n div 10)") auto
  ultimately show ?thesis by simp
qed

lemma str_nat_inj: "str_nat m = str_nat n \<Longrightarrow> m = n"
proof (induction m arbitrary: n rule: str_nat.induct)
  case (1 m)
  show ?case
  proof (cases "m < 10")
    case True
    then have sm: "str_nat m = [digit_char m]" by (subst str_nat.simps) simp
    show ?thesis
    proof (cases "n < 10")
      case True
      then have "str_nat n = [digit_char n]" by (subst str_nat.simps) simp
      then show ?thesis using sm "1.prems" digit_char_inj \<open>m < 10\<close> True by simp
    next
      case False
      then have "2 \<le> length (str_nat n)" using str_nat_length_ge by simp
      then show ?thesis using sm "1.prems" by simp
    qed
  next
    case False
    then have sm: "str_nat m = str_nat (m div 10) @ [digit_char (m mod 10)]"
      by (subst str_nat.simps) simp
    show ?thesis
    proof (cases "n < 10")
      case True
      then have "str_nat n = [digit_char n]" by (subst str_nat.simps) simp
      moreover have "2 \<le> length (str_nat m)" using False str_nat_length_ge by simp
      ultimately show ?thesis using "1.prems" by simp
    next
      case nf: False
      then have sn: "str_nat n = str_nat (n div 10) @ [digit_char (n mod 10)]"
        by (subst str_nat.simps) simp
      from sm sn "1.prems" have e: "str_nat (m div 10) = str_nat (n div 10)"
        and d: "digit_char (m mod 10) = digit_char (n mod 10)" by auto
      have "m div 10 = n div 10" using "1.IH"[OF False e] .
      moreover have "m mod 10 = n mod 10" using d digit_char_inj by simp
      ultimately show ?thesis by (metis div_mult_mod_eq)
    qed
  qed
qed

lemma handle_duplicates_free_snd:
  assumes h: "handle_duplicates taken dir_path fname ext counter name new_file_path = Some y"
  shows "\<not> taken (snd y)"
proof (rule handle_duplicates.raw_induct[where P = "\<lambda>t d f e c n p y. \<not> t (snd y)", OF _ h])
  fix hd' :: "(string \<Rightarrow> bool) \<Rightarrow> string \<Rightarrow> string \<Rightarrow> string \<Rightarrow> nat \<Rightarrow> string \<Rightarrow> string \<Rightarrow>
   (string \<times> string) option"
  fix t d f e c n p y
  assume ih: "\<And>t d f e c n p y. hd' t d f e c n p = Some y \<Longrightarrow> \<not> t (snd y)"
    and b: "(if t p then hd' t d f e (c + 1) (f @ ''_'' @ str_nat c @ e)
               (path_join d (f @ ''_'' @ str_nat c @ e)) else Some (n, p)) = Some y"
  show "\<not> t (snd y)"
  proof (cases "t p")
    case True
    then show ?thesis using b ih by simp
  next
    case False
    then show ?thesis using b by auto
  qed
qed

lemma handle_duplicates_free:
  "handle_duplicates taken dir_path fname ext counter name new_file_path = Some (n, p)
   \<Longrightarrow> \<not> taken p"
  using handle_duplicates_free_snd by fastforce

lemma path_join_numbered_inj:
  assumes "path_join dir_path (fname @ ''_'' @ str_nat j @ ext)
         = path_join dir_path (fname @ ''_'' @ str_nat k @ ext)"
  shows "j = k"
proof -
  have h: "hd (fname @ ''_'' @ str_nat i @ ext) = hd (fname @ ''_'')" for i
    by (cases fname) auto
  have "fname @ ''_'' @ str_nat j @ ext = fname @ ''_'' @ str_nat k @ ext"
    using assms unfolding path_join_def h by (auto split: if_splits)
  then have "str_nat j = str_nat k" by simp
  then show ?thesis by (rule str_nat_inj)
qed

lemma handle_duplicates_run:
  assumes "\<not> taken (path_join dir_path (fname @ ''_'' @ str_nat (counter + n) @ ext))"
    and "\<forall>j<n. taken (path_join dir_path (fname @ ''_'' @ str_nat (counter + j) @ ext))"
    and "taken new_file_path"
  shows "handle_duplicates taken dir_path fname ext counter name new_file_path
       = Some (fname @ ''_'' @ str_nat (counter + n) @ ext,
               path_join dir_path (fname @ ''_'' @ str_nat (counter + n) @ ext))"
  using assms
proof (induction n arbitrary: counter name new_file_path)
  case 0
  have "handle_duplicates taken dir_path fname ext counter name new_file_path
      = handle_duplicates taken dir_path fname ext (counter + 1)
             (fname @ ''_'' @ str_nat counter @ ext)
             (path_join dir_path (fname @ ''_'' @ str_nat counter @ ext))"
    using "0.prems"(3) by (subst handle_duplicates.simps) simp
  also have "\<dots> = Some (fname @ ''_'' @ str_nat counter @ ext,
               path_join dir_path (fname @ ''_'' @ str_nat counter @ ext))"
    using "0.prems"(1) by (subst handle_duplicates.simps) simp
  finally show ?case by simp
next
  case (Suc n)
  have t: "taken (path_join dir_path (fname @ ''_'' @ str_nat counter @ ext))"
    using Suc.prems(2) by (metis add.right_neutral zero_less_Suc)
  have "handle_duplicates taken dir_path fname ext counter name new_file_path
      = handle_duplicates taken dir_path fname ext (counter + 1)
             (fname @ ''_'' @ str_nat counter @ ext)
             (path_join dir_path (fname @ ''_'' @ str_nat counter @ ext))"
    using Suc.prems(3) by (subst handle_duplicates.simps) simp
  also have "\<dots> = Some (fname @ ''_'' @ str_nat (counter + 1 + n) @ ext,
               path_join dir_path (fname @ ''_'' @ str_nat (counter + 1 + n) @ ext))"
  proof (rule Suc.IH)
    show "\<not> taken (path_join dir_path (fname @ ''_'' @ str_nat (counter + 1 + n) @ ext))"
      using Suc.prems(1) by simp
    show "\<forall>j<n. taken (path_join dir_path (fname @ ''_'' @ str_nat (counter + 1 + j) @ ext))"
      using Suc.prems(2) by (metis Suc_less_eq add_Suc_right add_Suc_shift plus_1_eq_Suc add.commute)
    show "taken (path_join dir_path (fname @ ''_'' @ str_nat counter @ ext))" by (rule t)
  qed
  finally show ?case by simp
qed

lemma free_candidate_exists:
  assumes "finite {p. taken p}"
  shows "\<exists>n. \<not> taken (path_join dir_path (fname @ ''_'' @ str_nat (counter + n) @ ext))"
proof (rule ccontr)
  assume "\<not> ?thesis"
  then have all: "\<And>n. taken (path_join dir_path (fname @ ''_'' @ str_nat (counter + n) @ ext))"
    by blast
  let ?f = "\<lambda>n. path_join dir_path (fname @ ''_'' @ str_nat (counter + n) @ ext)"
  have "inj ?f"
  proof (rule injI)
    fix x y assume "?f x = ?f y"
    then have "counter + x = counter + y" by (rule path_join_numbered_inj)
    then show "x = y" by simp
  qed
  then have "infinite (range ?f)" using finite_imageD infinite_UNIV_nat by blast
  moreover have "range ?f \<subseteq> {p. taken p}" using all by auto
  ultimately show False using assms finite_subset by blast
qed

lemma handle_duplicates_terminates:
  assumes fin: "finite {p. taken p}" and t: "taken new_file_path"
  shows "\<exists>n. handle_duplicates taken dir_path fname ext counter name new_file_path
       = Some (fname @ ''_'' @ str_nat (counter + n) @ ext,
               path_join dir_path (fname @ ''_'' @ str_nat (counter + n) @ ext))
     \<and> \<not> taken (path_join dir_path (fname @ ''_'' @ str_nat (counter + n) @ ext))
     \<and> (\<forall>j<n. taken (path_join dir_path (fname @ ''_'' @ str_nat (counter + j) @ ext)))"
proof -
  let ?Q = "\<lambda>n. \<not> taken (path_join dir_path (fname @ ''_'' @ str_nat (counter + n) @ ext))"
  define n where "n = (LEAST n. ?Q n)"
  have ex: "\<exists>n. ?Q n" using fin by (rule free_candidate_exists)
  have q: "?Q n" unfolding n_def using ex by (rule LeastI_ex)
  have b: "\<forall>j<n. taken (path_join dir_path (fname @ ''_'' @ str_nat (counter + j) @ ext))"
    unfolding n_def using not_less_Least by blast
  show ?thesis using handle_duplicates_run[OF q b t] q b by blast
qed

lemma str_nat_1: "str_nat 1 = ''1''"
  by (subst str_nat.simps) (simp add: digit_char_def)

lemma str_nat_Suc_0: "str_nat (Suc 0) = ''1''"
  using str_nat_1 by simp


lemma choose_link_type_isdir:
  "os_path_isdir os src s \<Longrightarrow> choose_link_type os src p s = Inr ''symlink''"
  unfolding choose_link_type_def by simp

lemma choose_link_type_file:
  assumes "\<not> os_path_isdir os src s" and "choose_link_type os src p s = Inr lt"
  shows "\<exists>sd dd. os_stat_dev os src s = Inr sd \<and> os_stat_dev os (dirname p) s = Inr dd \<and>
                 (sd = dd \<longrightarrow> lt = ''hardlink'') \<and> (sd \<noteq> dd \<longrightarrow> lt = ''symlink'')"
proof -
  have c: "(case os_stat_dev os src s of
           Inl e \<Rightarrow> Inl e
         | Inr source_dev \<Rightarrow>
             (case os_stat_dev os (dirname p) s of
                Inl e \<Rightarrow> Inl e
              | Inr dest_dev \<Rightarrow>
                  if source_dev = dest_dev then Inr ''hardlink'' else Inr ''symlink'')) = Inr lt"
    using assms unfolding choose_link_type_def by simp
  then obtain sd where sd: "os_stat_dev os src s = Inr sd"
    by (cases "os_stat_dev os src s") auto
  with c have c2: "(case os_stat_dev os (dirname p) s of
                Inl e \<Rightarrow> Inl e
              | Inr dest_dev \<Rightarrow>
                  if sd = dest_dev then Inr ''hardlink'' else Inr ''symlink'') = Inr lt"
    by simp
  then obtain dd where dd: "os_stat_dev os (dirname p) s = Inr dd"
    by (cases "os_stat_dev os (dirname p) s") auto
  with c2 have "(if sd = dd then Inr ''hardlink'' else Inr ''symlink'') = (Inr lt :: exn + string)"
    by simp
  then have "(sd = dd \<longrightarrow> lt = ''hardlink'') \<and> (sd \<noteq> dd \<longrightarrow> lt = ''symlink'')"
    by (cases "sd = dd") auto
  then show ?thesis using sd dd by blast
qed

lemma plan_paths_Inr:
  assumes "plan_paths os new_path renamed src folder fname s = Some (Inr opr, s')"
  shows "\<exists>name.
      os_makedirs os (path_join new_path folder) s = (None, s') \<and>
      handle_duplicates (\<lambda>p. p \<in> renamed \<or> os_path_exists os p s')
         (path_join new_path folder) fname (splitext_ext src) 1
         (fname @ splitext_ext src)
         (path_join (path_join new_path folder) (fname @ splitext_ext src))
        = Some (name, destination opr) \<and>
      choose_link_type os src (destination opr) s' = Inr (link_type opr) \<and>
      source opr = src \<and> folder_name opr = folder \<and> new_file_name opr = name"
proof -
  obtain r s1 where m: "os_makedirs os (path_join new_path folder) s = (r, s1)"
    by (cases "os_makedirs os (path_join new_path folder) s") auto
  have r: "r = None" and s1: "s1 = s'"
    using assms m unfolding plan_paths_def Let_def
    by (auto split: option.splits prod.splits sum.splits)
  obtain name p where h: "handle_duplicates (\<lambda>p. p \<in> renamed \<or> os_path_exists os p s')
         (path_join new_path folder) fname (splitext_ext src) 1
         (fname @ splitext_ext src)
         (path_join (path_join new_path folder) (fname @ splitext_ext src)) = Some (name, p)"
    using assms m r s1 unfolding plan_paths_def Let_def
    by (auto split: option.splits prod.splits sum.splits)
  obtain lt where lt: "choose_link_type os src p s' = Inr lt"
    using assms m r s1 h unfolding plan_paths_def Let_def
    by (auto split: sum.splits)
  have "opr = \<lparr>source = src, destination = p, link_type = lt,
               folder_name = folder, new_file_name = name\<rparr>"
    using assms m r s1 h lt unfolding plan_paths_def Let_def by simp
  then show ?thesis using m r s1 h lt by auto
qed

lemma plan_record_Inr:
  assumes "plan_record os new_path renamed data s = Some (Inr opr, s')"
  shows "\<exists>folder fname.
      foldername data = Some (PyStr folder) \<and> filename data = Some (PyStr fname) \<and>
      plan_paths os new_path renamed (file_path data) folder fname s = Some (Inr opr, s')"
  using assms unfolding plan_record_def
  by (auto split: option.splits pyval.splits)

lemma handle_duplicates_stop:
  "\<not> taken new_file_path \<Longrightarrow>
   handle_duplicates taken dir_path fname ext counter name new_file_path = Some (name, new_file_path)"
  by (subst handle_duplicates.simps) simp

lemma plan_paths_eval:
  assumes "os_makedirs os (path_join new_path folder) s = (None, s1)"
    and "handle_duplicates (\<lambda>p. p \<in> renamed \<or> os_path_exists os p s1)
           (path_join new_path folder) fname (splitext_ext src) 1 (fname @ splitext_ext src)
           (path_join (path_join new_path folder) (fname @ splitext_ext src)) = Some (name, p)"
    and "choose_link_type os src p s1 = Inr lt"
  shows "plan_paths os new_path renamed src folder fname s
     = Some (Inr \<lparr>source = src, destination = p, link_type = lt,
                  folder_name = folder, new_file_name = name\<rparr>, s1)"
  using assms by (simp add: plan_paths_def Let_def)

lemma choose_link_type_devices:
  assumes "\<not> os_path_isdir os src s" and "os_stat_dev os src s = Inr sd"
    and "os_stat_dev os (dirname p) s = Inr dd"
  shows "choose_link_type os src p s = Inr (if sd = dd then ''hardlink'' else ''symlink'')"
  using assms unfolding choose_link_type_def by simp

lemma handle_duplicates_returns:
  assumes fin: "finite {p. taken p}"
  shows "\<exists>name dest. handle_duplicates taken dir_path fname ext counter name0 path0
           = Some (name, dest)"
proof (cases "taken path0")
  case False
  then have "handle_duplicates taken dir_path fname ext counter name0 path0 = Some (name0, path0)"
    by (rule handle_duplicates_stop)
  then show ?thesis by blast
next
  case True
  from handle_duplicates_terminates[where taken = taken and new_file_path = path0
      and dir_path = dir_path and fname = fname and counter = counter and ext = ext
      and name = name0, OF fin True]
  show ?thesis by blast
qed

lemma plan_record_paths:
  assumes "foldername data = Some (PyStr folder)" and "filename data = Some (PyStr fname)"
  shows "plan_record os new_path renamed data s
     = plan_paths os new_path renamed (file_path data) folder fname s"
  using assms unfolding plan_record_def by simp

text \<open>
  C6. Link type selection. First, whenever the planner returns an operation for a
  record, its link type is \<open>symlink\<close> when the source is a directory, whatever the
  devices; otherwise both \<open>os.stat\<close> calls succeeded, and the link type is \<open>hardlink\<close>
  when the source and the directory of the destination are on the same device and
  \<open>symlink\<close> when the devices differ. Second, the planner does return such an operation:
  for a record with a folder name and a file name, when \<open>os.makedirs\<close> succeeds and
  finitely many paths are taken, the search for a free destination ends, a source that
  is a directory is planned with \<open>symlink\<close> (no device is looked at), and a source that
  is not a directory is planned with \<open>hardlink\<close> or \<open>symlink\<close> according to whether the two
  devices reported by \<open>os.stat\<close> are equal.
\<close>

theorem link_type_selection:
  "(plan_record os new_path renamed data s = Some (Inr opr, s') \<longrightarrow>
      source opr = file_path data \<and>
      (os_path_isdir os (file_path data) s' \<longrightarrow> link_type opr = ''symlink'') \<and>
      (\<not> os_path_isdir os (file_path data) s' \<longrightarrow>
         (\<exists>sd dd. os_stat_dev os (file_path data) s' = Inr sd \<and>
                   os_stat_dev os (dirname (destination opr)) s' = Inr dd \<and>
                   (sd = dd \<longrightarrow> link_type opr = ''hardlink'') \<and>
                   (sd \<noteq> dd \<longrightarrow> link_type opr = ''symlink'')))) \<and>
   (foldername data = Some (PyStr folder) \<and> filename data = Some (PyStr fname) \<and>
    os_makedirs os (path_join new_path folder) s = (None, s1) \<and>
    finite {p. p \<in> renamed \<or> os_path_exists os p s1} \<longrightarrow>
      (\<exists>name dest.
         handle_duplicates (\<lambda>p. p \<in> renamed \<or> os_path_exists os p s1)
           (path_join new_path folder) fname (splitext_ext (file_path data)) 1
           (fname @ splitext_ext (file_path data))
           (path_join (path_join new_path folder) (fname @ splitext_ext (file_path data)))
           = Some (name, dest) \<and>
         (os_path_isdir os (file_path data) s1 \<longrightarrow>
            plan_record os new_path renamed data s
              = Some (Inr \<lparr>source = file_path data, destination = dest,
                           link_type = ''symlink'', folder_name = folder,
                           new_file_name = name\<rparr>, s1)) \<and>
         (\<not> os_path_isdir os (file_path data) s1 \<longrightarrow>
            (\<forall>sd dd. os_stat_dev os (file_path data) s1 = Inr sd \<and>
                     os_stat_dev os (dirname dest) s1 = Inr dd \<longrightarrow>
               plan_record os new_path renamed data s
                 = Some (Inr \<lparr>source = file_path data, destination = dest,
                              link_type = (if sd = dd then ''hardlink'' else ''symlink''),
                              folder_name = folder, new_file_name = name\<rparr>, s1)))))"
proof -
  have part1: "plan_record os new_path renamed data s = Some (Inr opr, s') \<longrightarrow>
      source opr = file_path data \<and>
      (os_path_isdir os (file_path data) s' \<longrightarrow> link_type opr = ''symlink'') \<and>
      (\<not> os_path_isdir os (file_path data) s' \<longrightarrow>
         (\<exists>sd dd. os_stat_dev os (file_path data) s' = Inr sd \<and>
                   os_stat_dev os (dirname (destination opr)) s' = Inr dd \<and>
                   (sd = dd \<longrightarrow> link_type opr = ''hardlink'') \<and>
                   (sd \<noteq> dd \<longrightarrow> link_type opr = ''symlink'')))"
  proof (rule impI)
    assume a: "plan_record os new_path renamed data s = Some (Inr opr, s')"
    obtain folder' fname' where
      p: "plan_paths os new_path renamed (file_path data) folder' fname' s = Some (Inr opr, s')"
      using plan_record_Inr[OF a] by blast
    from plan_paths_Inr[OF p] have
      c: "choose_link_type os (file_path data) (destination opr) s' = Inr (link_type opr)"
      and src: "source opr = file_path data" by auto
    show "source opr = file_path data \<and>
      (os_path_isdir os (file_path data) s' \<longrightarrow> link_type opr = ''symlink'') \<and>
      (\<not> os_path_isdir os (file_path data) s' \<longrightarrow>
         (\<exists>sd dd. os_stat_dev os (file_path data) s' = Inr sd \<and>
                   os_stat_dev os (dirname (destination opr)) s' = Inr dd \<and>
                   (sd = dd \<longrightarrow> link_type opr = ''hardlink'') \<and>
                   (sd \<noteq> dd \<longrightarrow> link_type opr = ''symlink'')))"
    proof (intro conjI impI)
      show "source opr = file_path data" by (rule src)
    next
      assume "os_path_isdir os (file_path data) s'"
      then show "link_type opr = ''symlink''"
        using c choose_link_type_isdir[of os "file_path data" s' "destination opr"] by simp
    next
      assume "\<not> os_path_isdir os (file_path data) s'"
      then show "\<exists>sd dd. os_stat_dev os (file_path data) s' = Inr sd \<and>
                  os_stat_dev os (dirname (destination opr)) s' = Inr dd \<and>
                  (sd = dd \<longrightarrow> link_type opr = ''hardlink'') \<and>
                  (sd \<noteq> dd \<longrightarrow> link_type opr = ''symlink'')"
        using c by (rule choose_link_type_file)
    qed
  qed
  have part2: "foldername data = Some (PyStr folder) \<and> filename data = Some (PyStr fname) \<and>
    os_makedirs os (path_join new_path folder) s = (None, s1) \<and>
    finite {p. p \<in> renamed \<or> os_path_exists os p s1} \<longrightarrow>
      (\<exists>name dest.
         handle_duplicates (\<lambda>p. p \<in> renamed \<or> os_path_exists os p s1)
           (path_join new_path folder) fname (splitext_ext (file_path data)) 1
           (fname @ splitext_ext (file_path data))
           (path_join (path_join new_path folder) (fname @ splitext_ext (file_path data)))
           = Some (name, dest) \<and>
         (os_path_isdir os (file_path data) s1 \<longrightarrow>
            plan_record os new_path renamed data s
              = Some (Inr \<lparr>source = file_path data, destination = dest,
                           link_type = ''symlink'', folder_name = folder,
                           new_file_name = name\<rparr>, s1)) \<and>
         (\<not> os_path_isdir os (file_path data) s1 \<longrightarrow>
            (\<forall>sd dd. os_stat_dev os (file_path data) s1 = Inr sd \<and>
                     os_stat_dev os (dirname dest) s1 = Inr dd \<longrightarrow>
               plan_record os new_path renamed data s
                 = Some (Inr \<lparr>source = file_path data, destination = dest,
                              link_type = (if sd = dd then ''hardlink'' else ''symlink''),
                              folder_name = folder, new_file_name = name\<rparr>, s1))))"
  proof (rule impI)
    assume a: "foldername data = Some (PyStr folder) \<and> filename data = Some (PyStr fname) \<and>
    os_makedirs os (path_join new_path folder) s = (None, s1) \<and>
    finite {p. p \<in> renamed \<or> os_path_exists os p s1}"
    note f = a[THEN conjunct1]
    note n = a[THEN conjunct2, THEN conjunct1]
    note m = a[THEN conjunct2, THEN conjunct2, THEN conjunct1]
    note fin = a[THEN conjunct2, THEN conjunct2, THEN conjunct2]
    note r = plan_record_paths[where os = os and new_path = new_path and renamed = renamed
        and s = s, OF f n]
    have "\<exists>name dest. handle_duplicates (\<lambda>p. p \<in> renamed \<or> os_path_exists os p s1)
           (path_join new_path folder) fname (splitext_ext (file_path data)) 1
           (fname @ splitext_ext (file_path data))
           (path_join (path_join new_path folder) (fname @ splitext_ext (file_path data)))
           = Some (name, dest)"
      using fin by (rule handle_duplicates_returns)
    then obtain name dest where
      h: "handle_duplicates (\<lambda>p. p \<in> renamed \<or> os_path_exists os p s1)
           (path_join new_path folder) fname (splitext_ext (file_path data)) 1
           (fname @ splitext_ext (file_path data))
           (path_join (path_join new_path folder) (fname @ splitext_ext (file_path data)))
           = Some (name, dest)"
      by (elim exE)
    have d: "os_path_isdir os (file_path data) s1 \<longrightarrow>
            plan_record os new_path renamed data s
              = Some (Inr \<lparr>source = file_path data, destination = dest,
                           link_type = ''symlink'', folder_name = folder,
                           new_file_name = name\<rparr>, s1)"
    proof (rule impI)
      assume i: "os_path_isdir os (file_path data) s1"
      show "plan_record os new_path renamed data s
              = Some (Inr \<lparr>source = file_path data, destination = dest,
                           link_type = ''symlink'', folder_name = folder,
                           new_file_name = name\<rparr>, s1)"
        unfolding r
        by (rule plan_paths_eval[OF m h choose_link_type_isdir[OF i]])
    qed
    have e: "\<not> os_path_isdir os (file_path data) s1 \<longrightarrow>
            (\<forall>sd dd. os_stat_dev os (file_path data) s1 = Inr sd \<and>
                     os_stat_dev os (dirname dest) s1 = Inr dd \<longrightarrow>
               plan_record os new_path renamed data s
                 = Some (Inr \<lparr>source = file_path data, destination = dest,
                              link_type = (if sd = dd then ''hardlink'' else ''symlink''),
                              folder_name = folder, new_file_name = name\<rparr>, s1))"
    proof (intro impI allI)
      fix sd dd
      assume i: "\<not> os_path_isdir os (file_path data) s1"
        and sdd: "os_stat_dev os (file_path data) s1 = Inr sd \<and>
                     os_stat_dev os (dirname dest) s1 = Inr dd"
      note sd = sdd[THEN conjunct1]
      note dd = sdd[THEN conjunct2]
      show "plan_record os new_path renamed data s
                 = Some (Inr \<lparr>source = file_path data, destination = dest,
                              link_type = (if sd = dd then ''hardlink'' else ''symlink''),
                              folder_name = folder, new_file_name = name\<rparr>, s1)"
        unfolding r
        by (rule plan_paths_eval[OF m h choose_link_type_devices[OF i sd dd]])
    qed
    have "handle_duplicates (\<lambda>p. p \<in> renamed \<or> os_path_exists os p s1)
           (path_join new_path folder) fname (splitext_ext (file_path data)) 1
           (fname @ splitext_ext (file_path data))
           (path_join (path_join new_path folder) (fname @ splitext_ext (file_path data)))
           = Some (name, dest) \<and>
         (os_path_isdir os (file_path data) s1 \<longrightarrow>
            plan_record os new_path renamed data s
              = Some (Inr \<lparr>source = file_path data, destination = dest,
                           link_type = ''symlink'', folder_name = folder,
                           new_file_name = name\<rparr>, s1)) \<and>
         (\<not> os_path_isdir os (file_path data) s1 \<longrightarrow>
            (\<forall>sd dd. os_stat_dev os (file_path data) s1 = Inr sd \<and>
                     os_stat_dev os (dirname dest) s1 = Inr dd \<longrightarrow>
               plan_record os new_path renamed data s
                 = Some (Inr \<lparr>source = file_path data, destination = dest,
                              link_type = (if sd = dd then ''hardlink'' else ''symlink''),
                              folder_name = folder, new_file_name = name\<rparr>, s1)))"
      using h d e by (intro conjI)
    then show "\<exists>name dest.
         handle_duplicates (\<lambda>p. p \<in> renamed \<or> os_path_exists os p s1)
           (path_join new_path folder) fname (splitext_ext (file_path data)) 1
           (fname @ splitext_ext (file_path data))
           (path_join (path_join new_path folder) (fname @ splitext_ext (file_path data)))
           = Some (name, dest) \<and>
         (os_path_isdir os (file_path data) s1 \<longrightarrow>
            plan_record os new_path renamed data s
              = Some (Inr \<lparr>source = file_path data, destination = dest,
                           link_type = ''symlink'', folder_name = folder,
                           new_file_name = name\<rparr>, s1)) \<and>
         (\<not> os_path_isdir os (file_path data) s1 \<longrightarrow>
            (\<forall>sd dd. os_stat_dev os (file_path data) s1 = Inr sd \<and>
                     os_stat_dev os (dirname dest) s1 = Inr dd \<longrightarrow>
               plan_record os new_path renamed data s
                 = Some (Inr \<lparr>source = file_path data, destination = dest,
                              link_type = (if sd = dd then ''hardlink'' else ''symlink''),
                              folder_name = folder, new_file_name = name\<rparr>, s1)))"
      by (intro exI)
  qed
  show ?thesis using part1 part2 by (rule conjI)
qed



lemma plan_record_source_dest:
  assumes "plan_record os new_path renamed data s = Some (Inr opr, s')"
  shows "source opr = file_path data \<and> destination opr \<notin> renamed"
proof -
  obtain folder fname where
    p: "plan_paths os new_path renamed (file_path data) folder fname s = Some (Inr opr, s')"
    using plan_record_Inr[OF assms] by blast
  from plan_paths_Inr[OF p] obtain name where
    h: "handle_duplicates (\<lambda>p. p \<in> renamed \<or> os_path_exists os p s')
         (path_join new_path folder) fname (splitext_ext (file_path data)) 1
         (fname @ splitext_ext (file_path data))
         (path_join (path_join new_path folder) (fname @ splitext_ext (file_path data)))
        = Some (name, destination opr)" and src: "source opr = file_path data"
    by blast
  from handle_duplicates_free[OF h] src show ?thesis by simp
qed

lemma compute_loop_invariant:
  assumes "compute_loop os new_path data_list operations st s = Some (r, st', s')"
  shows "processed_files st \<subseteq> processed_files st' \<and> renamed_files st \<subseteq> renamed_files st' \<and>
     (\<forall>ops. r = Inr ops \<longrightarrow>
        (\<exists>new. ops = operations @ new \<and>
           distinct (map source new) \<and> set (map source new) \<inter> processed_files st = {} \<and>
           set (map source new) \<subseteq> processed_files st' \<and>
           distinct (map destination new) \<and>
           set (map destination new) \<inter> renamed_files st = {} \<and>
           set (map destination new) \<subseteq> renamed_files st'))"
  using assms
proof (induction data_list arbitrary: operations st s)
  case Nil
  then show ?case by auto
next
  case (Cons data data_list)
  show ?case
  proof (cases "file_path data \<in> processed_files st")
    case True
    then have "compute_loop os new_path data_list operations st s = Some (r, st', s')"
      using Cons.prems by simp
    then show ?thesis by (rule Cons.IH)
  next
    case False
    define st1 where "st1 = st\<lparr>processed_files := insert (file_path data) (processed_files st)\<rparr>"
    have c: "(case plan_record os new_path (renamed_files st1) data s of
              None \<Rightarrow> None
            | Some (Inl e, s1) \<Rightarrow> Some (Inl e, st1, s1)
            | Some (Inr opr, s1) \<Rightarrow>
                compute_loop os new_path data_list (operations @ [opr])
                  (st1\<lparr>renamed_files := insert (destination opr) (renamed_files st1)\<rparr>) s1)
          = Some (r, st', s')"
      using Cons.prems False unfolding st1_def by (simp add: Let_def)
    then obtain x s1 where p: "plan_record os new_path (renamed_files st1) data s = Some (x, s1)"
      by (cases "plan_record os new_path (renamed_files st1) data s") auto
    show ?thesis
    proof (cases x)
      case (Inl e)
      then have "r = Inl e" "st' = st1" using c p by auto
      then show ?thesis unfolding st1_def by auto
    next
      case (Inr opr)
      define st2 where "st2 = st1\<lparr>renamed_files := insert (destination opr) (renamed_files st1)\<rparr>"
      have rec: "compute_loop os new_path data_list (operations @ [opr]) st2 s1 = Some (r, st', s')"
        using c p Inr unfolding st2_def by simp
      note ih = Cons.IH[OF rec]
      have sd: "source opr = file_path data" "destination opr \<notin> renamed_files st"
        using plan_record_source_dest[of os new_path "renamed_files st1" data s opr s1] p Inr
        unfolding st1_def by auto
      have pf2: "processed_files st2 = insert (file_path data) (processed_files st)"
        and rf2: "renamed_files st2 = insert (destination opr) (renamed_files st)"
        unfolding st2_def st1_def by auto
      show ?thesis
      proof (intro conjI allI impI)
        show "processed_files st \<subseteq> processed_files st'" using ih pf2 by auto
        show "renamed_files st \<subseteq> renamed_files st'" using ih rf2 by auto
      next
        fix ops assume "r = Inr ops"
        then obtain new where new: "ops = (operations @ [opr]) @ new"
           "distinct (map source new)" "set (map source new) \<inter> processed_files st2 = {}"
           "set (map source new) \<subseteq> processed_files st'"
           "distinct (map destination new)"
           "set (map destination new) \<inter> renamed_files st2 = {}"
           "set (map destination new) \<subseteq> renamed_files st'"
          using ih by blast
        have in1: "file_path data \<in> processed_files st'" using ih pf2 by auto
        have in2: "destination opr \<in> renamed_files st'" using ih rf2 by auto
        show "\<exists>new. ops = operations @ new \<and>
           distinct (map source new) \<and> set (map source new) \<inter> processed_files st = {} \<and>
           set (map source new) \<subseteq> processed_files st' \<and>
           distinct (map destination new) \<and>
           set (map destination new) \<inter> renamed_files st = {} \<and>
           set (map destination new) \<subseteq> renamed_files st'"
          using new sd False in1 in2 unfolding pf2 rf2
          by (intro exI[of _ "opr # new"]) auto
      qed
    qed
  qed
qed

lemma plan_calls_invariant:
  assumes "plan_calls os calls st = Some opss"
  shows "distinct (map source (concat opss)) \<and>
         set (map source (concat opss)) \<inter> processed_files st = {} \<and>
         distinct (map destination (concat opss)) \<and>
         set (map destination (concat opss)) \<inter> renamed_files st = {}"
  using assms
proof (induction calls arbitrary: st opss)
  case Nil
  then show ?case by simp
next
  case (Cons call calls)
  obtain data_list new_path s where call: "call = (data_list, new_path, s)"
    by (cases call) auto
  obtain r st' s' where c: "compute_operations os data_list new_path st s = Some (r, st', s')"
    using Cons.prems call by (auto split: option.splits)
  obtain rest where rest: "plan_calls os calls st' = Some rest"
    and opss: "opss = (case r of Inl e \<Rightarrow> [] | Inr operations \<Rightarrow> operations) # rest"
    using Cons.prems call c by (auto split: option.splits)
  note ih = Cons.IH[OF rest]
  note inv = compute_loop_invariant[OF c[unfolded compute_operations_def]]
  show ?case
  proof (cases r)
    case (Inl e)
    then have "concat opss = concat rest" using opss by simp
    moreover have "set (map source (concat rest)) \<inter> processed_files st = {}"
      using ih inv by blast
    moreover have "set (map destination (concat rest)) \<inter> renamed_files st = {}"
      using ih inv by blast
    ultimately show ?thesis using ih by simp
  next
    case (Inr ops)
    then have "distinct (map source ops)" "set (map source ops) \<inter> processed_files st = {}"
      "set (map source ops) \<subseteq> processed_files st'"
      "distinct (map destination ops)" "set (map destination ops) \<inter> renamed_files st = {}"
      "set (map destination ops) \<subseteq> renamed_files st'"
      using inv by auto
    note o = this
    have cc: "concat opss = ops @ concat rest" using opss Inr by simp
    have 1: "set (map source (concat rest)) \<inter> processed_files st = {}"
      using ih inv by blast
    have 2: "set (map destination (concat rest)) \<inter> renamed_files st = {}"
      using ih inv by blast
    have 3: "set (map source ops) \<inter> set (map source (concat rest)) = {}"
      using ih o(3) by blast
    have 4: "set (map destination ops) \<inter> set (map destination (concat rest)) = {}"
      using ih o(6) by blast
    have a: "distinct (map source (concat opss))"
      unfolding cc map_append distinct_append using o(1) ih 3 by blast
    have b: "set (map source (concat opss)) \<inter> processed_files st = {}"
      unfolding cc map_append set_append using o(2) 1 by blast
    have c: "distinct (map destination (concat opss))"
      unfolding cc map_append distinct_append using o(4) ih 4 by blast
    have d: "set (map destination (concat opss)) \<inter> renamed_files st = {}"
      unfolding cc map_append set_append using o(5) 2 by blast
    show ?thesis using a b c d by blast
  qed
qed

text \<open>
  C4. For successive planner calls that share \<open>renamed_files\<close> and \<open>processed_files\<close>:
  the operations returned by one call have pairwise distinct destinations (the
  destinations are even distinct across the calls), every source path occurs in at most
  one operation over all the calls, and no source that was in \<open>processed_files\<close> at the
  start is planned.
\<close>

theorem planned_operations_distinct:
  assumes "plan_calls os calls st = Some opss"
  shows "(\<forall>ops \<in> set opss. distinct (map destination ops)) \<and>
         distinct (map destination (concat opss)) \<and>
         distinct (map source (concat opss)) \<and>
         set (map source (concat opss)) \<inter> processed_files st = {}"
proof -
  note inv = plan_calls_invariant[OF assms]
  have "\<forall>ops \<in> set opss. distinct (map destination ops)"
  proof
    fix ops assume "ops \<in> set opss"
    then obtain a b where "opss = a @ ops # b" by (meson split_list)
    then have "concat opss = concat a @ ops @ concat b" by simp
    then show "distinct (map destination ops)" using inv by simp
  qed
  then show ?thesis using inv by simp
qed

lemma simple_os_sel:
  "os_makedirs simple_os = simple_makedirs" "os_link simple_os = simple_link"
  "os_symlink simple_os = simple_symlink" "os_path_exists simple_os = simple_exists"
  "os_path_isdir simple_os = simple_isdir" "os_stat_dev simple_os = simple_stat_dev"
  "append_line simple_os = simple_append"
  by (simp_all add: simple_os_def)

lemma ext_txt: "splitext_ext ''in/a.txt'' = ''.txt''" "splitext_ext ''in/b.txt'' = ''.txt''"
  "splitext_ext ''in/sub'' = []"
  by (simp_all add: splitext_ext_def basename_def)

lemma join_out: "path_join ''out'' ''docs'' = ''out/docs''"
  "path_join ''out/docs'' ''foo.txt'' = ''out/docs/foo.txt''"
  "path_join ''out/docs'' ''foo_1.txt'' = ''out/docs/foo_1.txt''"
  "path_join ''out/docs'' ''foo'' = ''out/docs/foo''"
  "path_join ''mnt'' ''docs'' = ''mnt/docs''"
  "path_join ''mnt/docs'' ''foo.txt'' = ''mnt/docs/foo.txt''"
  by (simp_all add: path_join_def)

lemma dirname_out: "dirname ''out/docs/foo.txt'' = ''out/docs''"
  "dirname ''out/docs/foo_1.txt'' = ''out/docs''"
  "dirname ''out/docs/foo'' = ''out/docs''"
  "dirname ''mnt/docs/foo.txt'' = ''mnt/docs''"
  "dirname ''a.txt'' = []"
  by (simp_all add: dirname_def)

lemma parents_out: "parents ''out/docs'' = [''out'', ''out/docs'']"
  "parents ''mnt/docs'' = [''mnt'', ''mnt/docs'']"
  by (simp_all add: parents_def upt_rec)

lemma makedirs_fs0: "simple_makedirs ''out/docs'' fs0 = (None, fs1)"
  by (simp add: simple_makedirs_def parents_out fs0_def fs1_def)

lemma makedirs_fs1: "simple_makedirs ''out/docs'' fs1 = (None, fs1)"
  by (simp add: simple_makedirs_def parents_out fs0_def fs1_def)

lemma link_type_a: "choose_link_type simple_os ''in/a.txt'' ''out/docs/foo.txt'' fs1 = Inr ''hardlink''"
  by (simp add: choose_link_type_def simple_os_sel simple_isdir_def simple_stat_dev_def
      simple_exists_def simple_dev_def dirname_out fs1_def fs0_def)

lemma link_type_b: "choose_link_type simple_os ''in/b.txt'' ''out/docs/foo_1.txt'' fs1 = Inr ''hardlink''"
  by (simp add: choose_link_type_def simple_os_sel simple_isdir_def simple_stat_dev_def
      simple_exists_def simple_dev_def dirname_out fs1_def fs0_def)

lemma plan_a: "plan_record simple_os ''out'' {} rec_a fs0
  = Some (Inr \<lparr>source = ''in/a.txt'', destination = ''out/docs/foo.txt'',
               link_type = ''hardlink'', folder_name = ''docs'', new_file_name = ''foo.txt''\<rparr>, fs1)"
proof -
  have r: "plan_record simple_os ''out'' {} rec_a fs0
      = plan_paths simple_os ''out'' {} ''in/a.txt'' ''docs'' ''foo'' fs0"
    by (simp add: plan_record_def rec_a_def)
  have h: "handle_duplicates (\<lambda>p. p \<in> {} \<or> os_path_exists simple_os p fs1)
           (path_join ''out'' ''docs'') ''foo'' (splitext_ext ''in/a.txt'') 1
           (''foo'' @ splitext_ext ''in/a.txt'')
           (path_join (path_join ''out'' ''docs'') (''foo'' @ splitext_ext ''in/a.txt''))
        = Some (''foo.txt'', ''out/docs/foo.txt'')"
    unfolding ext_txt join_out
    by (rule trans[OF handle_duplicates_stop])
       (simp_all add: join_out simple_os_sel simple_exists_def fs1_def fs0_def)
  show ?thesis unfolding r
    by (rule plan_paths_eval[OF _ h]) (simp_all add: simple_os_sel join_out makedirs_fs0 link_type_a)
qed

lemma plan_b: "plan_record simple_os ''out'' {''out/docs/foo.txt''} rec_b fs1
  = Some (Inr \<lparr>source = ''in/b.txt'', destination = ''out/docs/foo_1.txt'',
               link_type = ''hardlink'', folder_name = ''docs'', new_file_name = ''foo_1.txt''\<rparr>, fs1)"
proof -
  have r: "plan_record simple_os ''out'' {''out/docs/foo.txt''} rec_b fs1
      = plan_paths simple_os ''out'' {''out/docs/foo.txt''} ''in/b.txt'' ''docs'' ''foo'' fs1"
    by (simp add: plan_record_def rec_b_def)
  have "handle_duplicates (\<lambda>p. p \<in> {''out/docs/foo.txt''} \<or> os_path_exists simple_os p fs1)
           ''out/docs'' ''foo'' ''.txt'' 1 ''foo.txt'' ''out/docs/foo.txt''
        = Some (''foo'' @ ''_'' @ str_nat (1 + 0) @ ''.txt'',
                path_join ''out/docs'' (''foo'' @ ''_'' @ str_nat (1 + 0) @ ''.txt''))"
    by (rule handle_duplicates_run)
       (simp_all add: str_nat_Suc_0 join_out simple_os_sel simple_exists_def fs1_def fs0_def)
  then have h: "handle_duplicates (\<lambda>p. p \<in> {''out/docs/foo.txt''} \<or> os_path_exists simple_os p fs1)
           (path_join ''out'' ''docs'') ''foo'' (splitext_ext ''in/b.txt'') 1
           (''foo'' @ splitext_ext ''in/b.txt'')
           (path_join (path_join ''out'' ''docs'') (''foo'' @ splitext_ext ''in/b.txt''))
        = Some (''foo_1.txt'', ''out/docs/foo_1.txt'')"
    by (simp add: ext_txt join_out str_nat_Suc_0)
  show ?thesis unfolding r
    by (rule plan_paths_eval[OF _ h]) (simp_all add: simple_os_sel join_out makedirs_fs1 link_type_b)
qed

lemma rec_paths: "file_path rec_a = ''in/a.txt''" "file_path rec_b = ''in/b.txt''"
  by (simp_all add: rec_a_def rec_b_def)

lemma compute_ab:
  "compute_operations simple_os [rec_a, rec_b] ''out'' st0 fs0 = Some (Inr [op_a, op_b], st2, fs1)"
  by (simp add: compute_operations_def Let_def rec_paths st0_def plan_a plan_b op_a_def op_b_def
      st2_def)

lemma compute_again:
  "compute_operations simple_os [rec_b, rec_a] ''out'' st2 fs1 = Some (Inr [], st2, fs1)"
  by (simp add: compute_operations_def rec_paths st2_def)

lemma plan_calls_example:
  "plan_calls simple_os [([rec_a, rec_b], ''out'', fs0), ([rec_b, rec_a], ''out'', fs1)] st0
     = Some [ [op_a, op_b], []]"
  by (simp add: compute_ab compute_again)

text \<open>
  Two calls on overlapping record lists: the second call plans nothing.
\<close>

theorem planned_operations_distinct_witness:
  "plan_calls simple_os [([rec_a, rec_b], ''out'', fs0), ([rec_b, rec_a], ''out'', fs1)] st0
     = Some [ [op_a, op_b], []] \<and>
   distinct (map destination [op_a, op_b]) \<and>
   distinct (map source (concat [ [op_a, op_b], []]))"
  using planned_operations_distinct[OF plan_calls_example] plan_calls_example by simp





lemma makedirs_mnt: "simple_makedirs ''mnt/docs'' fs0 = (None, fs_mnt)"
  by (simp add: simple_makedirs_def parents_out fs0_def fs_mnt_def)



lemma simple_exists_finite: "finite {p. p \<in> {} \<or> os_path_exists simple_os p fs}"
proof (rule finite_subset)
  show "{p. p \<in> {} \<or> os_path_exists simple_os p fs} \<subseteq> set (fs_dirs fs) \<union> set (fs_files fs)"
    by (auto simp: simple_os_sel simple_exists_def)
  show "finite (set (fs_dirs fs) \<union> set (fs_files fs))" by simp
qed

lemma hd_dir:
  "handle_duplicates (\<lambda>p. p \<in> {} \<or> os_path_exists simple_os p fs1)
     (path_join ''out'' ''docs'') ''foo'' (splitext_ext ''in/sub'') 1
     (''foo'' @ splitext_ext ''in/sub'')
     (path_join (path_join ''out'' ''docs'') (''foo'' @ splitext_ext ''in/sub''))
   = Some (''foo'', ''out/docs/foo'')"
  unfolding ext_txt join_out
  by (rule trans[OF handle_duplicates_stop])
     (simp_all add: join_out simple_os_sel simple_exists_def fs1_def fs1_def fs0_def)

lemma hd_fil:
  "handle_duplicates (\<lambda>p. p \<in> {} \<or> os_path_exists simple_os p fs1)
     (path_join ''out'' ''docs'') ''foo'' (splitext_ext ''in/a.txt'') 1
     (''foo'' @ splitext_ext ''in/a.txt'')
     (path_join (path_join ''out'' ''docs'') (''foo'' @ splitext_ext ''in/a.txt''))
   = Some (''foo.txt'', ''out/docs/foo.txt'')"
  unfolding ext_txt join_out
  by (rule trans[OF handle_duplicates_stop])
     (simp_all add: join_out simple_os_sel simple_exists_def fs1_def fs1_def fs0_def)

lemma hd_mnt:
  "handle_duplicates (\<lambda>p. p \<in> {} \<or> os_path_exists simple_os p fs_mnt)
     (path_join ''mnt'' ''docs'') ''foo'' (splitext_ext ''in/a.txt'') 1
     (''foo'' @ splitext_ext ''in/a.txt'')
     (path_join (path_join ''mnt'' ''docs'') (''foo'' @ splitext_ext ''in/a.txt''))
   = Some (''foo.txt'', ''mnt/docs/foo.txt'')"
  unfolding ext_txt join_out
  by (rule trans[OF handle_duplicates_stop])
     (simp_all add: join_out simple_os_sel simple_exists_def fs_mnt_def fs1_def fs0_def)

text \<open>
  The planner run on a directory, on a file on the device of the destination and on a
  file on another device.
\<close>

theorem link_type_selection_witness:
  "os_path_isdir simple_os ''in/sub'' fs1 \<and>
   plan_record simple_os ''out'' {} rec_dir fs0
     = Some (Inr \<lparr>source = ''in/sub'', destination = ''out/docs/foo'', link_type = ''symlink'',
                  folder_name = ''docs'', new_file_name = ''foo''\<rparr>, fs1) \<and>
   os_stat_dev simple_os ''in/a.txt'' fs1 = Inr 0 \<and>
   os_stat_dev simple_os (dirname ''out/docs/foo.txt'') fs1 = Inr 0 \<and>
   plan_record simple_os ''out'' {} rec_a fs0
     = Some (Inr \<lparr>source = ''in/a.txt'', destination = ''out/docs/foo.txt'',
                  link_type = ''hardlink'', folder_name = ''docs'',
                  new_file_name = ''foo.txt''\<rparr>, fs1) \<and>
   os_stat_dev simple_os ''in/a.txt'' fs_mnt = Inr 0 \<and>
   os_stat_dev simple_os (dirname ''mnt/docs/foo.txt'') fs_mnt = Inr 1 \<and>
   plan_record simple_os ''mnt'' {} rec_a fs0
     = Some (Inr \<lparr>source = ''in/a.txt'', destination = ''mnt/docs/foo.txt'',
                  link_type = ''symlink'', folder_name = ''docs'',
                  new_file_name = ''foo.txt''\<rparr>, fs_mnt)"
proof -
  have isd: "os_path_isdir simple_os ''in/sub'' fs1"
    by (simp add: simple_os_sel simple_isdir_def fs1_def fs0_def)
  have nd_out: "\<not> os_path_isdir simple_os ''in/a.txt'' fs1"
    and nd_mnt: "\<not> os_path_isdir simple_os ''in/a.txt'' fs_mnt"
    by (simp_all add: simple_os_sel simple_isdir_def fs1_def fs_mnt_def fs0_def)
  have st_out: "os_stat_dev simple_os ''in/a.txt'' fs1 = Inr 0"
    "os_stat_dev simple_os (dirname ''out/docs/foo.txt'') fs1 = Inr 0"
    and st_mnt: "os_stat_dev simple_os ''in/a.txt'' fs_mnt = Inr 0"
    "os_stat_dev simple_os (dirname ''mnt/docs/foo.txt'') fs_mnt = Inr 1"
    by (simp_all add: simple_os_sel simple_stat_dev_def simple_exists_def simple_dev_def
        dirname_out fs1_def fs_mnt_def fs0_def)
  have dir: "plan_record simple_os ''out'' {} rec_dir fs0
      = Some (Inr \<lparr>source = ''in/sub'', destination = ''out/docs/foo'', link_type = ''symlink'',
              folder_name = ''docs'', new_file_name = ''foo''\<rparr>, fs1)"
  proof -
    have fp: "file_path rec_dir = ''in/sub''" by (simp add: rec_dir_def)
    have p1: "foldername rec_dir = Some (PyStr ''docs'')" by (simp add: rec_dir_def)
    have p2: "filename rec_dir = Some (PyStr ''foo'')" by (simp add: rec_dir_def)
    have p3: "os_makedirs simple_os (path_join ''out'' ''docs'') fs0 = (None, fs1)"
      by (simp add: simple_os_sel join_out makedirs_fs0)
    have p4: "finite {p. p \<in> {} \<or> os_path_exists simple_os p fs1}"
      by (rule simple_exists_finite)
    have pre: "foldername rec_dir = Some (PyStr ''docs'') \<and> filename rec_dir = Some (PyStr ''foo'') \<and>
      os_makedirs simple_os (path_join ''out'' ''docs'') fs0 = (None, fs1) \<and>
      finite {p. p \<in> {} \<or> os_path_exists simple_os p fs1}"
      using p1 p2 p3 p4 by (intro conjI)
    note t = link_type_selection[where os = simple_os and new_path = "''out''"
        and renamed = "{}" and data = rec_dir and s = fs0 and folder = "''docs''"
        and fname = "''foo''" and ?s1.0 = fs1, THEN conjunct2, THEN mp, OF pre, unfolded fp]
    from t obtain name dest where
      h: "handle_duplicates (\<lambda>p. p \<in> {} \<or> os_path_exists simple_os p fs1)
           (path_join ''out'' ''docs'') ''foo'' (splitext_ext ''in/sub'') 1
           (''foo'' @ splitext_ext ''in/sub'')
           (path_join (path_join ''out'' ''docs'') (''foo'' @ splitext_ext ''in/sub''))
           = Some (name, dest)"
      and d: "os_path_isdir simple_os ''in/sub'' fs1 \<longrightarrow>
            plan_record simple_os ''out'' {} rec_dir fs0
              = Some (Inr \<lparr>source = ''in/sub'', destination = dest,
                           link_type = ''symlink'', folder_name = ''docs'',
                           new_file_name = name\<rparr>, fs1)"
      and e: "\<not> os_path_isdir simple_os ''in/sub'' fs1 \<longrightarrow>
            (\<forall>sd dd. os_stat_dev simple_os ''in/sub'' fs1 = Inr sd \<and>
                     os_stat_dev simple_os (dirname dest) fs1 = Inr dd \<longrightarrow>
               plan_record simple_os ''out'' {} rec_dir fs0
                 = Some (Inr \<lparr>source = ''in/sub'', destination = dest,
                              link_type = (if sd = dd then ''hardlink'' else ''symlink''),
                              folder_name = ''docs'', new_file_name = name\<rparr>, fs1))"
      by (elim exE conjE)
    have "Some (name, dest) = Some (''foo'', ''out/docs/foo'')"
      by (rule trans[OF h[symmetric] hd_dir])
    then have nm: "name = ''foo''" and de: "dest = ''out/docs/foo''" by simp_all
    show ?thesis using d[rule_format, OF isd] unfolding nm de .
  qed
  have fil: "plan_record simple_os ''out'' {} rec_a fs0
      = Some (Inr \<lparr>source = ''in/a.txt'', destination = ''out/docs/foo.txt'', link_type = ''hardlink'',
              folder_name = ''docs'', new_file_name = ''foo.txt''\<rparr>, fs1)"
  proof -
    have fp: "file_path rec_a = ''in/a.txt''" by (simp add: rec_a_def)
    have p1: "foldername rec_a = Some (PyStr ''docs'')" by (simp add: rec_a_def)
    have p2: "filename rec_a = Some (PyStr ''foo'')" by (simp add: rec_a_def)
    have p3: "os_makedirs simple_os (path_join ''out'' ''docs'') fs0 = (None, fs1)"
      by (simp add: simple_os_sel join_out makedirs_fs0)
    have p4: "finite {p. p \<in> {} \<or> os_path_exists simple_os p fs1}"
      by (rule simple_exists_finite)
    have pre: "foldername rec_a = Some (PyStr ''docs'') \<and> filename rec_a = Some (PyStr ''foo'') \<and>
      os_makedirs simple_os (path_join ''out'' ''docs'') fs0 = (None, fs1) \<and>
      finite {p. p \<in> {} \<or> os_path_exists simple_os p fs1}"
      using p1 p2 p3 p4 by (intro conjI)
    note t = link_type_selection[where os = simple_os and new_path = "''out''"
        and renamed = "{}" and data = rec_a and s = fs0 and folder = "''docs''"
        and fname = "''foo''" and ?s1.0 = fs1, THEN conjunct2, THEN mp, OF pre, unfolded fp]
    from t obtain name dest where
      h: "handle_duplicates (\<lambda>p. p \<in> {} \<or> os_path_exists simple_os p fs1)
           (path_join ''out'' ''docs'') ''foo'' (splitext_ext ''in/a.txt'') 1
           (''foo'' @ splitext_ext ''in/a.txt'')
           (path_join (path_join ''out'' ''docs'') (''foo'' @ splitext_ext ''in/a.txt''))
           = Some (name, dest)"
      and d: "os_path_isdir simple_os ''in/a.txt'' fs1 \<longrightarrow>
            plan_record simple_os ''out'' {} rec_a fs0
              = Some (Inr \<lparr>source = ''in/a.txt'', destination = dest,
                           link_type = ''symlink'', folder_name = ''docs'',
                           new_file_name = name\<rparr>, fs1)"
      and e: "\<not> os_path_isdir simple_os ''in/a.txt'' fs1 \<longrightarrow>
            (\<forall>sd dd. os_stat_dev simple_os ''in/a.txt'' fs1 = Inr sd \<and>
                     os_stat_dev simple_os (dirname dest) fs1 = Inr dd \<longrightarrow>
               plan_record simple_os ''out'' {} rec_a fs0
                 = Some (Inr \<lparr>source = ''in/a.txt'', destination = dest,
                              link_type = (if sd = dd then ''hardlink'' else ''symlink''),
                              folder_name = ''docs'', new_file_name = name\<rparr>, fs1))"
      by (elim exE conjE)
    have "Some (name, dest) = Some (''foo.txt'', ''out/docs/foo.txt'')"
      by (rule trans[OF h[symmetric] hd_fil])
    then have nm: "name = ''foo.txt''" and de: "dest = ''out/docs/foo.txt''" by simp_all
    have sdd: "os_stat_dev simple_os ''in/a.txt'' fs1 = Inr 0 \<and>
        os_stat_dev simple_os (dirname dest) fs1 = Inr 0"
      unfolding de using st_out by (intro conjI)
    show ?thesis using e[rule_format, OF nd_out sdd] unfolding nm de by simp
  qed
  have mnt: "plan_record simple_os ''mnt'' {} rec_a fs0
      = Some (Inr \<lparr>source = ''in/a.txt'', destination = ''mnt/docs/foo.txt'', link_type = ''symlink'',
              folder_name = ''docs'', new_file_name = ''foo.txt''\<rparr>, fs_mnt)"
  proof -
    have fp: "file_path rec_a = ''in/a.txt''" by (simp add: rec_a_def)
    have p1: "foldername rec_a = Some (PyStr ''docs'')" by (simp add: rec_a_def)
    have p2: "filename rec_a = Some (PyStr ''foo'')" by (simp add: rec_a_def)
    have p3: "os_makedirs simple_os (path_join ''mnt'' ''docs'') fs0 = (None, fs_mnt)"
      by (simp add: simple_os_sel join_out makedirs_mnt)
    have p4: "finite {p. p \<in> {} \<or> os_path_exists simple_os p fs_mnt}"
      by (rule simple_exists_finite)
    have pre: "foldername rec_a = Some (PyStr ''docs'') \<and> filename rec_a = Some (PyStr ''foo'') \<and>
      os_makedirs simple_os (path_join ''mnt'' ''docs'') fs0 = (None, fs_mnt) \<and>
      finite {p. p \<in> {} \<or> os_path_exists simple_os p fs_mnt}"
      using p1 p2 p3 p4 by (intro conjI)
    note t = link_type_selection[where os = simple_os and new_path = "''mnt''"
        and renamed = "{}" and data = rec_a and s = fs0 and folder = "''docs''"
        and fname = "''foo''" and ?s1.0 = fs_mnt, THEN conjunct2, THEN mp, OF pre, unfolded fp]
    from t obtain name dest where
      h: "handle_duplicates (\<lambda>p. p \<in> {} \<or> os_path_exists simple_os p fs_mnt)
           (path_join ''mnt'' ''docs'') ''foo'' (splitext_ext ''in/a.txt'') 1
           (''foo'' @ splitext_ext ''in/a.txt'')
           (path_join (path_join ''mnt'' ''docs'') (''foo'' @ splitext_ext ''in/a.txt''))
           = Some (name, dest)"
      and d: "os_path_isdir simple_os ''in/a.txt'' fs_mnt \<longrightarrow>
            plan_record simple_os ''mnt'' {} rec_a fs0
              = Some (Inr \<lparr>source = ''in/a.txt'', destination = dest,
                           link_type = ''symlink'', folder_name = ''docs'',
                           new_file_name = name\<rparr>, fs_mnt)"
      and e: "\<not> os_path_isdir simple_os ''in/a.txt'' fs_mnt \<longrightarrow>
            (\<forall>sd dd. os_stat_dev simple_os ''in/a.txt'' fs_mnt = Inr sd \<and>
                     os_stat_dev simple_os (dirname dest) fs_mnt = Inr dd \<longrightarrow>
               plan_record simple_os ''mnt'' {} rec_a fs0
                 = Some (Inr \<lparr>source = ''in/a.txt'', destination = dest,
                              link_type = (if sd = dd then ''hardlink'' else ''symlink''),
                              folder_name = ''docs'', new_file_name = name\<rparr>, fs_mnt))"
      by (elim exE conjE)
    have "Some (name, dest) = Some (''foo.txt'', ''mnt/docs/foo.txt'')"
      by (rule trans[OF h[symmetric] hd_mnt])
    then have nm: "name = ''foo.txt''" and de: "dest = ''mnt/docs/foo.txt''" by simp_all
    have sdd: "os_stat_dev simple_os ''in/a.txt'' fs_mnt = Inr 0 \<and>
        os_stat_dev simple_os (dirname dest) fs_mnt = Inr 1"
      unfolding de using st_mnt by (intro conjI)
    show ?thesis using e[rule_format, OF nd_mnt sdd] unfolding nm de by simp
  qed
  show ?thesis using isd dir st_out fil st_mnt mnt by (intro conjI)
qed

section \<open>Properties of \<open>execute_operations\<close>\<close>



















lemma op_fields:
  "destination op_a = ''out/docs/foo.txt''" "source op_a = ''in/a.txt''"
  "link_type op_a = ''hardlink''"
  "destination op_b = ''out/docs/foo_1.txt''" "source op_b = ''in/b.txt''"
  "link_type op_b = ''hardlink''"
  "destination op_missing = ''out/docs/zzz.txt''" "source op_missing = ''in/zzz.txt''"
  "link_type op_missing = ''hardlink''"
  "destination op_blocked = ''in/a.txt/b.txt''" "source op_blocked = ''in/b.txt''"
  "link_type op_blocked = ''hardlink''"
  by (simp_all add: op_a_def op_b_def op_missing_def op_blocked_def)




















lemma link_missing_logged:
  "create_link simple_os op_missing (fs1\<lparr>fs_log := L\<rparr>)
     = (Some (OSError ''[Errno 2] No such file or directory''), fs1\<lparr>fs_log := L\<rparr>)"
  by (simp add: create_link_def op_fields simple_os_sel simple_link_def fs1_def fs0_def)





section \<open>Properties of \<open>group_similar_filenames\<close>\<close>

lemma upt_small: "[0..<3] = [0, 1, 2]" "[1..<3] = [1, 2]" "[2..<3] = [2]" "[3..<3] = []"
  "[0..<2] = [0, 1]" "[1..<2] = [1]" "[2..<2] = []"
  by (simp_all add: upt_rec)

text \<open>
  C8. Grouping is relative to the seed. For three paths \<open>a\<close>, \<open>b\<close>, \<open>c\<close> in that order
  whose file names satisfy \<open>ratio a b \<ge> threshold\<close>, \<open>ratio b c \<ge> threshold\<close> and
  \<open>ratio a c < threshold\<close>, the groups are \<open>[a, b]\<close> and \<open>[c]\<close>.
\<close>

theorem seed_relative_grouping:
  assumes "ratio (basename a) (basename b) \<ge> threshold"
    and "ratio (basename b) (basename c) \<ge> threshold"
    and "ratio (basename a) (basename c) < threshold"
  shows "group_similar_filenames ratio [a, b, c] threshold = [ [a, b], [c]]"
proof -
  have n: "\<not> threshold \<le> ratio (basename a) (basename c)" using assms(3) by simp
  have s0: "seed_step ratio threshold [a, b, c] [basename a, basename b, basename c] 0
      ([], [False, False, False]) = ([ [a, b]], [True, True, False])"
    using assms(1) n by (simp add: seed_step_def scan_candidate_def upt_small)
  have s1: "seed_step ratio threshold [a, b, c] [basename a, basename b, basename c] (Suc 0)
      ([ [a, b]], [True, True, False]) = ([ [a, b]], [True, True, False])"
    by (simp add: seed_step_def)
  have s2: "seed_step ratio threshold [a, b, c] [basename a, basename b, basename c] (Suc (Suc 0))
      ([ [a, b]], [True, True, False]) = ([ [a, b], [c]], [True, True, True])"
    by (simp add: seed_step_def scan_candidate_def upt_rec)
  show ?thesis
    unfolding group_similar_filenames_def Let_def
    by (simp add: upt_small s0 s1 s2 numeral_3_eq_3)
qed

lemma scan_fold:
  assumes "distinct js" and "\<forall>j\<in>set js. j < length a"
    and "fold (scan_candidate ratio threshold fps fns fname) js (g, a) = (g', a')"
  shows "length a' = length a \<and>
         (\<forall>k<length a. a' ! k = (a ! k \<or> (k \<in> set js \<and> ratio fname (fns ! k) \<ge> threshold))) \<and>
         g' = g @ map (\<lambda>j. fps ! j)
                    (filter (\<lambda>j. \<not> a ! j \<and> ratio fname (fns ! j) \<ge> threshold) js)"
  using assms
proof (induction js arbitrary: g a)
  case Nil
  then show ?case by simp
next
  case (Cons j js)
  define g1 where "g1 = (if \<not> a ! j \<and> ratio fname (fns ! j) \<ge> threshold then g @ [fps ! j] else g)"
  define a1 where "a1 = (if \<not> a ! j \<and> ratio fname (fns ! j) \<ge> threshold then a[j := True] else a)"
  have step: "scan_candidate ratio threshold fps fns fname j (g, a) = (g1, a1)"
    unfolding scan_candidate_def g1_def a1_def by simp
  have la: "length a1 = length a" unfolding a1_def by simp
  have jn: "j \<notin> set js" "distinct js" using Cons.prems(1) by auto
  have jl: "j < length a" using Cons.prems(2) by simp
  have same: "\<forall>k\<in>set js. a1 ! k = a ! k"
  proof
    fix k assume "k \<in> set js"
    then have "j \<noteq> k" using jn by auto
    then show "a1 ! k = a ! k" unfolding a1_def by simp
  qed
  have rec: "fold (scan_candidate ratio threshold fps fns fname) js (g1, a1) = (g', a')"
    using Cons.prems(3) step by simp
  have b: "\<forall>j\<in>set js. j < length a1" using Cons.prems(2) la by simp
  note ih = Cons.IH[OF jn(2) b rec]
  have f: "filter (\<lambda>j. \<not> a1 ! j \<and> ratio fname (fns ! j) \<ge> threshold) js
         = filter (\<lambda>j. \<not> a ! j \<and> ratio fname (fns ! j) \<ge> threshold) js"
    using same by (intro filter_cong) auto
  have 1: "length a' = length a" using ih la by simp
  have 2: "\<forall>k<length a. a' ! k = (a ! k \<or> (k \<in> set (j # js) \<and> ratio fname (fns ! k) \<ge> threshold))"
  proof (intro allI impI)
    fix k assume k: "k < length a"
    have "a' ! k = (a1 ! k \<or> (k \<in> set js \<and> ratio fname (fns ! k) \<ge> threshold))"
      using ih k la by simp
    moreover have "a1 ! k = (a ! k \<or> (k = j \<and> ratio fname (fns ! k) \<ge> threshold))"
      unfolding a1_def using k jl by (auto simp: nth_list_update)
    ultimately show "a' ! k = (a ! k \<or> (k \<in> set (j # js) \<and> ratio fname (fns ! k) \<ge> threshold))"
      by auto
  qed
  have 3: "g' = g @ map (\<lambda>j. fps ! j)
                    (filter (\<lambda>j. \<not> a ! j \<and> ratio fname (fns ! j) \<ge> threshold) (j # js))"
    using ih f unfolding g1_def by simp
  show ?case using 1 2 3 by blast
qed

lemma mset_map_filter_split:
  "mset (map f (filter P xs))
     = mset (map f (filter (\<lambda>x. P x \<and> Q x) xs)) + mset (map f (filter (\<lambda>x. P x \<and> \<not> Q x) xs))"
  by (induction xs) auto

lemma seed_step_old:
  assumes "a ! i" and "seed_step ratio threshold fps fns i (gs, a) = (gs', a')"
  shows "gs' = gs \<and> a' = a"
  using assms unfolding seed_step_def by auto

lemma seed_step_new:
  assumes i: "i < length fps" and la: "length a = length fps" and lf: "length fns = length fps"
    and na: "\<not> a ! i"
    and st: "seed_step ratio threshold fps fns i (gs, a) = (gs', a')"
  shows "length a' = length fps \<and>
     (\<forall>k<length fps. a' ! k = (a ! k \<or> k = i \<or> (i < k \<and> ratio (fns ! i) (fns ! k) \<ge> threshold))) \<and>
     gs' = gs @ [fps ! i # map (\<lambda>j. fps ! j)
                   (filter (\<lambda>j. \<not> a ! j \<and> ratio (fns ! i) (fns ! j) \<ge> threshold)
                      [i + 1..<length fps])]"
proof -
  define n where "n = length fps"
  define ok where "ok = (\<lambda>k. ratio (fns ! i) (fns ! k) \<ge> threshold)"
  define a0 where "a0 = a[i := True]"
  obtain g where f: "fold (scan_candidate ratio threshold fps fns (fns ! i)) [i + 1..<length fns]
        ([fps ! i], a0) = (g, a')" and gs': "gs' = gs @ [g]"
    using st na unfolding seed_step_def a0_def by (auto split: prod.splits)
  have la0: "length a0 = n" unfolding a0_def n_def using la by simp
  have b: "\<forall>j\<in>set [i + 1..<length fns]. j < length a0" using la0 lf n_def by simp
  from scan_fold[OF _ b f] have
    len: "length a' = n" and
    flags: "\<forall>k<n. a' ! k = (a0 ! k \<or> (k \<in> set [i + 1..<length fns] \<and> ok k))" and
    g: "g = [fps ! i] @ map (\<lambda>j. fps ! j) (filter (\<lambda>j. \<not> a0 ! j \<and> ok j) [i + 1..<length fns])"
    unfolding ok_def la0 by auto
  have a0k: "\<forall>k<n. a0 ! k = (a ! k \<or> k = i)"
    unfolding a0_def using la n_def i by (auto simp: nth_list_update)
  have fl: "\<forall>k<n. a' ! k = (a ! k \<or> k = i \<or> (i < k \<and> ok k))"
    using flags a0k lf n_def by auto
  have g2: "g = fps ! i # map (\<lambda>j. fps ! j) (filter (\<lambda>j. \<not> a ! j \<and> ok j) [i + 1..<n])"
  proof -
    have "filter (\<lambda>j. \<not> a0 ! j \<and> ok j) [i + 1..<n] = filter (\<lambda>j. \<not> a ! j \<and> ok j) [i + 1..<n]"
      using a0k by (intro filter_cong) auto
    then show ?thesis using g lf n_def by simp
  qed
  show ?thesis using len fl g2 gs' unfolding n_def ok_def by simp
qed

lemma seed_step_invariant:
  assumes i: "i < length fps" and la: "length a = length fps" and lf: "length fns = length fps"
    and st: "seed_step ratio threshold fps fns i (gs, a) = (gs', a')"
  shows "length a' = length fps \<and> a' ! i \<and> (\<forall>k<length fps. a ! k \<longrightarrow> a' ! k) \<and>
         mset (concat gs') + unassigned fps a' = mset (concat gs) + unassigned fps a \<and>
         ([] \<notin> set gs \<longrightarrow> [] \<notin> set gs')"
proof (cases "a ! i")
  case True
  then have "gs' = gs" "a' = a" using seed_step_old[OF _ st] by auto
  then show ?thesis using True la by simp
next
  case False
  define n where "n = length fps"
  define ok where "ok = (\<lambda>k. ratio (fns ! i) (fns ! k) \<ge> threshold)"
  define g where "g = fps ! i # map (\<lambda>j. fps ! j) (filter (\<lambda>j. \<not> a ! j \<and> ok j) [i + 1..<n])"
  have len: "length a' = n"
    and fl: "\<forall>k<n. a' ! k = (a ! k \<or> k = i \<or> (i < k \<and> ok k))"
    and gs': "gs' = gs @ [g]"
    using seed_step_new[OF i la lf False st] unfolding n_def ok_def g_def by auto
  have g2: "g = fps ! i # map (\<lambda>j. fps ! j) (filter (\<lambda>j. \<not> a ! j \<and> ok j) [i + 1..<n])"
    by (rule g_def)
  have split: "[0..<n] = [0..<i] @ i # [i + 1..<n]"
    using i n_def by (metis Suc_eq_plus1 le0 less_imp_le_nat upt_add_eq_append upt_conv_Cons
        add.left_neutral le_add_diff_inverse)
  have u_a: "unassigned fps a
      = mset (map (\<lambda>k. fps ! k) (filter (\<lambda>k. \<not> a ! k) [0..<i]))
        + {#fps ! i#}
        + mset (map (\<lambda>k. fps ! k) (filter (\<lambda>k. \<not> a ! k) [i + 1..<n]))"
    unfolding unassigned_def n_def[symmetric] split using False by simp
  have u_a': "unassigned fps a'
      = mset (map (\<lambda>k. fps ! k) (filter (\<lambda>k. \<not> a ! k) [0..<i]))
        + mset (map (\<lambda>k. fps ! k) (filter (\<lambda>k. \<not> a ! k \<and> \<not> ok k) [i + 1..<n]))"
  proof -
    have 1: "filter (\<lambda>k. \<not> a' ! k) [0..<i] = filter (\<lambda>k. \<not> a ! k) [0..<i]"
      using fl i n_def by (intro filter_cong) auto
    have 2: "filter (\<lambda>k. \<not> a' ! k) [i + 1..<n] = filter (\<lambda>k. \<not> a ! k \<and> \<not> ok k) [i + 1..<n]"
      using fl by (intro filter_cong) auto
    have 3: "a' ! i" using fl i n_def by simp
    show ?thesis unfolding unassigned_def n_def[symmetric] split using 1 2 3 by simp
  qed
  have part: "mset (map (\<lambda>k. fps ! k) (filter (\<lambda>k. \<not> a ! k) [i + 1..<n]))
      = mset (map (\<lambda>k. fps ! k) (filter (\<lambda>k. \<not> a ! k \<and> ok k) [i + 1..<n]))
        + mset (map (\<lambda>k. fps ! k) (filter (\<lambda>k. \<not> a ! k \<and> \<not> ok k) [i + 1..<n]))"
    by (rule mset_map_filter_split)
  have m: "mset g + unassigned fps a' = unassigned fps a"
    unfolding g2 u_a u_a' part by simp
  have "length a' = length fps" using len n_def by simp
  moreover have "a' ! i" using fl i n_def by simp
  moreover have "\<forall>k<length fps. a ! k \<longrightarrow> a' ! k" using fl n_def by simp
  moreover have "mset (concat gs') + unassigned fps a' = mset (concat gs) + unassigned fps a"
    using m gs' by (simp add: ac_simps)
  moreover have "[] \<notin> set gs \<longrightarrow> [] \<notin> set gs'" using gs' g2 by simp
  ultimately show ?thesis by blast
qed

lemma seed_step_settled:
  assumes i: "i < length fps" and la: "length a = length fps" and lf: "length fns = length fps"
    and names: "\<forall>k<length fps. \<forall>m<length fps. fps ! k = fps ! m \<longrightarrow> fns ! k = fns ! m"
    and refl: "\<forall>k<length fps. ratio (fns ! k) (fns ! k) \<ge> threshold"
    and pre: "\<forall>k<i. a ! k"
    and J: "settled fps a gs"
    and st: "seed_step ratio threshold fps fns i (gs, a) = (gs', a')"
  shows "settled fps a' gs' \<and> (\<forall>k<Suc i. a' ! k) \<and> length a' = length fps"
proof (cases "a ! i")
  case True
  then have e: "gs' = gs" "a' = a" using seed_step_old[OF _ st] by auto
  have "\<forall>k<Suc i. a ! k" using pre True by (auto simp: less_Suc_eq)
  then show ?thesis using e J la by simp
next
  case False
  define n where "n = length fps"
  define ok where "ok = (\<lambda>k. ratio (fns ! i) (fns ! k) \<ge> threshold)"
  define g where "g = fps ! i # map (\<lambda>j. fps ! j) (filter (\<lambda>j. \<not> a ! j \<and> ok j) [i + 1..<n])"
  have len: "length a' = n"
    and fl: "\<forall>k<n. a' ! k = (a ! k \<or> k = i \<or> (i < k \<and> ok k))"
    and gs': "gs' = gs @ [g]"
    using seed_step_new[OF i la lf False st] unfolding n_def ok_def g_def by auto
  have in_g: "\<And>p. p \<in> set g \<Longrightarrow> \<exists>m<n. p = fps ! m \<and> \<not> a ! m \<and> (m = i \<or> (i < m \<and> ok m))"
  proof -
    fix p assume "p \<in> set g"
    then consider "p = fps ! i" | "p \<in> set (map (\<lambda>j. fps ! j) (filter (\<lambda>j. \<not> a ! j \<and> ok j) [i + 1..<n]))"
      unfolding g_def by auto
    then show "\<exists>m<n. p = fps ! m \<and> \<not> a ! m \<and> (m = i \<or> (i < m \<and> ok m))"
    proof cases
      case 1
      then show ?thesis using False i n_def by blast
    next
      case 2
      then obtain m where "m \<in> set [i + 1..<n]" "\<not> a ! m" "ok m" "p = fps ! m" by auto
      then show ?thesis by (intro exI[of _ m]) auto
    qed
  qed
  have J1: "\<forall>g0\<in>set gs. \<forall>k<n. fps ! k \<in> set g0 \<longrightarrow> a ! k"
    and J2: "\<forall>x y. x < length gs \<and> y < length gs \<and> x \<noteq> y \<longrightarrow> set (gs ! x) \<inter> set (gs ! y) = {}"
    using J unfolding settled_def n_def by auto
  have new1: "\<forall>k<n. fps ! k \<in> set g \<longrightarrow> a' ! k"
  proof (intro allI impI)
    fix k assume k: "k < n" and kg: "fps ! k \<in> set g"
    from in_g[OF kg] obtain m where m: "m < n" "fps ! k = fps ! m" "\<not> a ! m"
      "m = i \<or> (i < m \<and> ok m)"
      by (elim exE conjE)
    have kk: "k < length fps" "m < length fps" using k m(1) unfolding n_def by simp_all
    have same: "fns ! k = fns ! m" using names[rule_format, OF kk(1) kk(2) m(2)] .
    show "a' ! k"
    proof (cases "a ! k")
      case True
      then show ?thesis using fl[rule_format, OF k] by simp
    next
      case nk: False
      have "\<not> k < i"
      proof
        assume "k < i"
        then have "a ! k" using pre[rule_format] by simp
        then show False using nk by simp
      qed
      then have ki: "k = i \<or> i < k" by arith
      have okk: "ok k"
      proof (cases "m = i")
        case True
        have "threshold \<le> ratio (fns ! k) (fns ! k)" using refl[rule_format, OF kk(1)] .
        moreover have "fns ! i = fns ! k" using same True by simp
        ultimately show ?thesis unfolding ok_def by simp
      next
        case False
        then have "ok m" using m(4) by simp
        then show ?thesis unfolding ok_def same .
      qed
      show ?thesis using fl[rule_format, OF k] okk ki by blast
    qed
  qed
  have old1: "\<forall>g0\<in>set gs. \<forall>k<n. fps ! k \<in> set g0 \<longrightarrow> a' ! k"
    using J1 fl by auto
  have disj: "\<forall>g0\<in>set gs. set g0 \<inter> set g = {}"
  proof
    fix g0 assume g0: "g0 \<in> set gs"
    show "set g0 \<inter> set g = {}"
    proof (rule ccontr)
      assume "set g0 \<inter> set g \<noteq> {}"
      then obtain p where p: "p \<in> set g0" "p \<in> set g" by auto
      from in_g[OF p(2)] obtain m where m: "m < n" "p = fps ! m" "\<not> a ! m"
        by (elim exE conjE)
      have "fps ! m \<in> set g0" using p(1) m(2) by simp
      then have "a ! m" using J1 g0 m(1) by blast
      then show False using m(3) by simp
    qed
  qed
  have S1: "\<forall>g0\<in>set gs'. \<forall>k<length fps. fps ! k \<in> set g0 \<longrightarrow> a' ! k"
    using new1 old1 gs' n_def by auto
  have S2: "\<forall>x y. x < length gs' \<and> y < length gs' \<and> x \<noteq> y \<longrightarrow> set (gs' ! x) \<inter> set (gs' ! y) = {}"
  proof (intro allI impI)
    fix x y assume xy: "x < length gs' \<and> y < length gs' \<and> x \<noteq> y"
    consider "x < length gs" "y < length gs" | "x = length gs" "y < length gs"
      | "x < length gs" "y = length gs"
      using xy gs' by (auto simp: less_Suc_eq)
    then show "set (gs' ! x) \<inter> set (gs' ! y) = {}"
    proof cases
      case 1
      then show ?thesis using J2 xy gs' by (simp add: nth_append)
    next
      case 2
      then have "gs' ! x = g" "gs' ! y = gs ! y" "gs ! y \<in> set gs"
        using gs' by (simp_all add: nth_append)
      then show ?thesis using disj by auto
    next
      case 3
      then have "gs' ! y = g" "gs' ! x = gs ! x" "gs ! x \<in> set gs"
        using gs' by (simp_all add: nth_append)
      then show ?thesis using disj by auto
    qed
  qed
  have P: "\<forall>k<Suc i. a' ! k"
  proof (intro allI impI)
    fix k assume "k < Suc i"
    then have "k < i \<or> k = i" by arith
    then show "a' ! k" using pre fl i n_def by auto
  qed
  show ?thesis using S1 S2 P len unfolding settled_def n_def by blast
qed

lemma seed_fold_settled:
  assumes la: "length a = length fps" and lf: "length fns = length fps"
    and names: "\<forall>k<length fps. \<forall>m<length fps. fps ! k = fps ! m \<longrightarrow> fns ! k = fns ! m"
    and refl: "\<forall>k<length fps. ratio (fns ! k) (fns ! k) \<ge> threshold"
    and pre: "\<forall>k<i. a ! k"
    and J: "settled fps a gs"
    and f: "fold (seed_step ratio threshold fps fns) [i..<length fps] (gs, a) = (gs', a')"
  shows "settled fps a' gs'"
  using la pre J f
proof (induction "length fps - i" arbitrary: i gs a)
  case 0
  then have e: "[i..<length fps] = []" by simp
  have "(gs', a') = (gs, a)" using "0.prems"(4) unfolding e by simp
  then show ?case using "0.prems"(3) by simp
next
  case (Suc d)
  then have i: "i < length fps" by arith
  then have u: "[i..<length fps] = i # [Suc i..<length fps]" by (rule upt_conv_Cons)
  obtain gs1 a1 where s: "seed_step ratio threshold fps fns i (gs, a) = (gs1, a1)"
    by (cases "seed_step ratio threshold fps fns i (gs, a)") auto
  note one = seed_step_settled[OF i Suc.prems(1) lf names refl Suc.prems(2) Suc.prems(3) s]
  have rec: "fold (seed_step ratio threshold fps fns) [Suc i..<length fps] (gs1, a1) = (gs', a')"
    using Suc.prems(4) s unfolding u by simp
  have d: "d = length fps - Suc i" using Suc.hyps(2) by arith
  show ?case
    using Suc.hyps(1)[OF d _ _ _ rec] one by blast
qed

lemma group_similar_filenames_reflexive:
  assumes "\<forall>x\<in>set file_paths. ratio (basename x) (basename x) \<ge> threshold"
    and "i < length (group_similar_filenames ratio file_paths threshold)"
    and "j < length (group_similar_filenames ratio file_paths threshold)" and "i \<noteq> j"
  shows "set (group_similar_filenames ratio file_paths threshold ! i) \<inter>
         set (group_similar_filenames ratio file_paths threshold ! j) = {}"
proof -
  define n where "n = length file_paths"
  define fns where "fns = map basename file_paths"
  obtain gs' a' where f: "fold (seed_step ratio threshold file_paths fns) [0..<length file_paths]
      ([], replicate n False) = (gs', a')"
    by (cases "fold (seed_step ratio threshold file_paths fns) [0..<length file_paths]
         ([], replicate n False)") auto
  have g: "group_similar_filenames ratio file_paths threshold = gs'"
    unfolding group_similar_filenames_def Let_def fns_def[symmetric] using f
    by (simp add: fns_def n_def)
  have names: "\<forall>k<length file_paths. \<forall>m<length file_paths.
      file_paths ! k = file_paths ! m \<longrightarrow> fns ! k = fns ! m"
    unfolding fns_def by simp
  have refl: "\<forall>k<length file_paths. ratio (fns ! k) (fns ! k) \<ge> threshold"
    unfolding fns_def using assms(1) by simp
  have J0: "settled file_paths (replicate n False) []" unfolding settled_def by simp
  have "settled file_paths a' gs'"
    by (rule seed_fold_settled[OF _ _ names refl _ J0 f]) (simp_all add: n_def fns_def)
  then show ?thesis using assms(2-4) unfolding g settled_def by blast
qed

lemma seed_fold_invariant:
  assumes "\<forall>i\<in>set js. i < length fps" and "length a = length fps"
    and "length fns = length fps"
    and "fold (seed_step ratio threshold fps fns) js (gs, a) = (gs', a')"
  shows "length a' = length fps \<and> (\<forall>k<length fps. a ! k \<longrightarrow> a' ! k) \<and>
         (\<forall>i\<in>set js. a' ! i) \<and>
         mset (concat gs') + unassigned fps a' = mset (concat gs) + unassigned fps a \<and>
         ([] \<notin> set gs \<longrightarrow> [] \<notin> set gs')"
  using assms
proof (induction js arbitrary: gs a)
  case Nil
  then show ?case by simp
next
  case (Cons j js)
  obtain gs1 a1 where s: "seed_step ratio threshold fps fns j (gs, a) = (gs1, a1)"
    by (cases "seed_step ratio threshold fps fns j (gs, a)") auto
  have j: "j < length fps" using Cons.prems(1) by simp
  note one = seed_step_invariant[OF j Cons.prems(2) Cons.prems(3) s]
  have rec: "fold (seed_step ratio threshold fps fns) js (gs1, a1) = (gs', a')"
    using Cons.prems(4) s by simp
  have b: "\<forall>i\<in>set js. i < length fps" using Cons.prems(1) by simp
  have l1: "length a1 = length fps" using one by simp
  note ih = Cons.IH[OF b l1 Cons.prems(3) rec]
  have 1: "length a' = length fps" using ih by simp
  have 2: "\<forall>k<length fps. a ! k \<longrightarrow> a' ! k" using one ih by blast
  have 3: "\<forall>i\<in>set (j # js). a' ! i" using one ih j by auto
  have 4: "mset (concat gs') + unassigned fps a' = mset (concat gs) + unassigned fps a"
    using one ih by simp
  have 5: "[] \<notin> set gs \<longrightarrow> [] \<notin> set gs'" using one ih by blast
  show ?case using 1 2 3 4 5 by blast
qed

lemma group_similar_filenames_mset:
  "mset (concat (group_similar_filenames ratio file_paths threshold)) = mset file_paths \<and>
   [] \<notin> set (group_similar_filenames ratio file_paths threshold)"
proof -
  define n where "n = length file_paths"
  define fns where "fns = map basename file_paths"
  obtain gs' a' where f: "fold (seed_step ratio threshold file_paths fns) [0..<n]
      ([], replicate n False) = (gs', a')"
    by (cases "fold (seed_step ratio threshold file_paths fns) [0..<n] ([], replicate n False)") auto
  have g: "group_similar_filenames ratio file_paths threshold = gs'"
    unfolding group_similar_filenames_def Let_def fns_def[symmetric] using f
    by (simp add: fns_def n_def)
  have inv: "length a' = length file_paths \<and> (\<forall>i\<in>set [0..<n]. a' ! i) \<and>
         mset (concat gs') + unassigned file_paths a'
           = mset (concat []) + unassigned file_paths (replicate n False) \<and>
         ([] \<notin> set [] \<longrightarrow> [] \<notin> set gs')"
    using seed_fold_invariant[OF _ _ _ f] by (simp add: n_def fns_def)
  have u0: "unassigned file_paths (replicate n False) = mset file_paths"
  proof -
    have "filter (\<lambda>k. \<not> replicate n False ! k) [0..<n] = [0..<n]"
      by (simp add: filter_id_conv)
    then show ?thesis unfolding unassigned_def n_def[symmetric] by (simp add: n_def map_nth)
  qed
  have u1: "unassigned file_paths a' = {#}"
  proof -
    have "filter (\<lambda>k. \<not> a' ! k) [0..<n] = []" using inv by (simp add: filter_empty_conv)
    then show ?thesis unfolding unassigned_def n_def[symmetric] by simp
  qed
  show ?thesis using inv u0 u1 g by simp
qed

lemma distinct_concat_disjoint:
  assumes d: "distinct (concat gs)" and ne: "[] \<notin> set gs"
    and i: "i < length gs" and j: "j < length gs" and ij: "i \<noteq> j"
  shows "set (gs ! i) \<inter> set (gs ! j) = {}"
proof -
  have dg: "distinct gs" using d ne by (simp add: distinct_concat_iff)
  then have "gs ! i \<noteq> gs ! j" using i j ij by (simp add: nth_eq_iff_index_eq)
  moreover have "gs ! i \<in> set gs" "gs ! j \<in> set gs" using i j by simp_all
  ultimately show ?thesis using d unfolding distinct_concat_iff by blast
qed

text \<open>
  C7. Under the contract of the grouping function, a threshold of at most 1 and a
  similarity ratio that is 1 on equal names (as \<open>difflib\<close>'s is), the groups partition the
  input for every list of paths, duplicates included: the union of the groups is the set
  of input paths, two different groups have no path in common, and every input path lies
  in exactly one group. Moreover no group is empty and the concatenation of the groups
  is a rearrangement of the input.
\<close>

theorem group_similar_filenames_partition:
  assumes r: "\<forall>x. ratio x x = 1" and t: "threshold \<le> 1"
  shows
    "\<Union> (set ` set (group_similar_filenames ratio file_paths threshold)) = set file_paths \<and>
     (\<forall>i j. i < length (group_similar_filenames ratio file_paths threshold) \<and>
            j < length (group_similar_filenames ratio file_paths threshold) \<and> i \<noteq> j \<longrightarrow>
            set (group_similar_filenames ratio file_paths threshold ! i) \<inter>
            set (group_similar_filenames ratio file_paths threshold ! j) = {}) \<and>
     (\<forall>p\<in>set file_paths.
        \<exists>!i. i < length (group_similar_filenames ratio file_paths threshold) \<and>
             p \<in> set (group_similar_filenames ratio file_paths threshold ! i)) \<and>
     [] \<notin> set (group_similar_filenames ratio file_paths threshold) \<and>
     mset (concat (group_similar_filenames ratio file_paths threshold)) = mset file_paths"
proof -
  define G where "G = group_similar_filenames ratio file_paths threshold"
  have m: "mset (concat G) = mset file_paths" and ne: "[] \<notin> set G"
    unfolding G_def using group_similar_filenames_mset by auto
  have u: "\<Union> (set ` set G) = set file_paths"
    using m by (metis set_concat set_mset_mset)
  have rr: "\<forall>x\<in>set file_paths. ratio (basename x) (basename x) \<ge> threshold"
    using r t by simp
  have dj: "set (G ! i) \<inter> set (G ! j) = {}" if "i < length G" "j < length G" "i \<noteq> j" for i j
    unfolding G_def
    by (rule group_similar_filenames_reflexive[where ratio = ratio and threshold = threshold
          and file_paths = file_paths, OF rr]) (use that G_def in auto)
  have ex1: "\<exists>!i. i < length G \<and> p \<in> set (G ! i)" if p: "p \<in> set file_paths" for p
  proof -
    from p u obtain g where g: "g \<in> set G" "p \<in> set g" by blast
    then obtain i where i: "i < length G" "G ! i = g" by (meson in_set_conv_nth)
    show ?thesis
    proof (rule ex1I[where a = i])
      show "i < length G \<and> p \<in> set (G ! i)" using i g by simp
    next
      fix j assume j: "j < length G \<and> p \<in> set (G ! j)"
      show "j = i"
      proof (rule ccontr)
        assume "j \<noteq> i"
        then have "set (G ! j) \<inter> set (G ! i) = {}" using dj j i by blast
        then show False using j i g by blast
      qed
    qed
  qed
  have dj': "\<forall>i j. i < length G \<and> j < length G \<and> i \<noteq> j \<longrightarrow> set (G ! i) \<inter> set (G ! j) = {}"
    using dj by blast
  have ex1': "\<forall>p\<in>set file_paths. \<exists>!i. i < length G \<and> p \<in> set (G ! i)"
    using ex1 by blast
  show ?thesis using u dj' ex1' ne m unfolding G_def by (intro conjI)
qed

text \<open>
  The bound on the threshold is needed: with a threshold above every ratio, two
  occurrences of one path form two groups.
\<close>

lemma duplicates_beyond_self_similarity:
  "group_similar_filenames same_name [''in/a.txt'', ''in/a.txt''] 2
     = [ [''in/a.txt''], [''in/a.txt'']] \<and>
   set ([ [''in/a.txt''], [''in/a.txt'']] ! 0) \<inter> set ([ [''in/a.txt''], [''in/a.txt'']] ! 1) \<noteq> {}"
proof -
  have b: "basename ''in/a.txt'' = ''a.txt''" by (simp add: basename_def)
  have s0: "seed_step same_name 2 [''in/a.txt'', ''in/a.txt''] [''a.txt'', ''a.txt''] 0
      ([], [False, False]) = ([ [''in/a.txt'']], [True, False])"
    by (simp add: seed_step_def scan_candidate_def upt_small same_name_def)
  have s1: "seed_step same_name 2 [''in/a.txt'', ''in/a.txt''] [''a.txt'', ''a.txt''] (Suc 0)
      ([ [''in/a.txt'']], [True, False]) = ([ [''in/a.txt''], [''in/a.txt'']], [True, True])"
    by (simp add: seed_step_def scan_candidate_def upt_rec)
  have "group_similar_filenames same_name [''in/a.txt'', ''in/a.txt''] 2
     = [ [''in/a.txt''], [''in/a.txt'']]"
    unfolding group_similar_filenames_def Let_def
    by (simp add: upt_small b s0 s1 numeral_2_eq_2)
  then show ?thesis by simp
qed

text \<open>
  Three names with a similarity that is not transitive.
\<close>

theorem seed_relative_grouping_witness:
  "near_length (basename ''in/a.txt'') (basename ''in/ab.txt'') \<ge> 8 / 10 \<and>
   near_length (basename ''in/ab.txt'') (basename ''in/abc.txt'') \<ge> 8 / 10 \<and>
   near_length (basename ''in/a.txt'') (basename ''in/abc.txt'') < 8 / 10 \<and>
   group_similar_filenames near_length [''in/a.txt'', ''in/ab.txt'', ''in/abc.txt''] (8 / 10)
     = [ [''in/a.txt'', ''in/ab.txt''], [''in/abc.txt'']]"
proof -
  have b: "basename ''in/a.txt'' = ''a.txt''" "basename ''in/ab.txt'' = ''ab.txt''"
    "basename ''in/abc.txt'' = ''abc.txt''"
    by (simp_all add: basename_def)
  have 1: "near_length (basename ''in/a.txt'') (basename ''in/ab.txt'') \<ge> 8 / 10"
    and 2: "near_length (basename ''in/ab.txt'') (basename ''in/abc.txt'') \<ge> 8 / 10"
    and 3: "near_length (basename ''in/a.txt'') (basename ''in/abc.txt'') < 8 / 10"
    unfolding b by (simp_all add: near_length_def)
  show ?thesis using seed_relative_grouping[OF 1 2 3] 1 2 3 by blast
qed

lemma duplicates_grouping:
  "group_similar_filenames same_name [''in/a.txt'', ''out/b.txt'', ''in/a.txt''] 1
     = [ [''in/a.txt'', ''in/a.txt''], [''out/b.txt'']]"
proof -
  have b: "basename ''in/a.txt'' = ''a.txt''" "basename ''out/b.txt'' = ''b.txt''"
    by (simp_all add: basename_def)
  have s0: "seed_step same_name 1 [''in/a.txt'', ''out/b.txt'', ''in/a.txt'']
      [''a.txt'', ''b.txt'', ''a.txt''] 0 ([], [False, False, False])
      = ([ [''in/a.txt'', ''in/a.txt'']], [True, False, True])"
    by (simp add: seed_step_def scan_candidate_def upt_small same_name_def)
  have s1: "seed_step same_name 1 [''in/a.txt'', ''out/b.txt'', ''in/a.txt'']
      [''a.txt'', ''b.txt'', ''a.txt''] (Suc 0) ([ [''in/a.txt'', ''in/a.txt'']], [True, False, True])
      = ([ [''in/a.txt'', ''in/a.txt''], [''out/b.txt'']], [True, True, True])"
    by (simp add: seed_step_def scan_candidate_def upt_rec)
  have s2: "seed_step same_name 1 [''in/a.txt'', ''out/b.txt'', ''in/a.txt'']
      [''a.txt'', ''b.txt'', ''a.txt''] (Suc (Suc 0))
      ([ [''in/a.txt'', ''in/a.txt''], [''out/b.txt'']], [True, True, True])
      = ([ [''in/a.txt'', ''in/a.txt''], [''out/b.txt'']], [True, True, True])"
    by (simp add: seed_step_def)
  show ?thesis
    unfolding group_similar_filenames_def Let_def
    by (simp add: upt_small b s0 s1 s2 numeral_2_eq_2)
qed

text \<open>
  A path given twice and another path, with the threshold 1.
\<close>

theorem group_similar_filenames_partition_witness:
  "(\<forall>x. same_name x x = 1) \<and> (1 :: real) \<le> 1 \<and>
   group_similar_filenames same_name [''in/a.txt'', ''out/b.txt'', ''in/a.txt''] 1
     = [ [''in/a.txt'', ''in/a.txt''], [''out/b.txt'']] \<and>
   \<Union> (set ` set [ [''in/a.txt'', ''in/a.txt''], [''out/b.txt'']])
     = set [''in/a.txt'', ''out/b.txt'', ''in/a.txt''] \<and>
   set ([ [''in/a.txt'', ''in/a.txt''], [''out/b.txt'']] ! 0) \<inter>
   set ([ [''in/a.txt'', ''in/a.txt''], [''out/b.txt'']] ! 1) = {} \<and>
   (\<exists>!i. i < length [ [''in/a.txt'', ''in/a.txt''], [''out/b.txt'']] \<and>
         ''in/a.txt'' \<in> set ([ [''in/a.txt'', ''in/a.txt''], [''out/b.txt'']] ! i))"
proof -
  have r: "\<forall>x. same_name x x = 1" by (simp add: same_name_def)
  have t: "(1 :: real) \<le> 1" by simp
  note p = group_similar_filenames_partition[where ratio = same_name and threshold = 1
      and file_paths = "[''in/a.txt'', ''out/b.txt'', ''in/a.txt'']", OF r t,
      unfolded duplicates_grouping]
  have u: "\<Union> (set ` set [ [''in/a.txt'', ''in/a.txt''], [''out/b.txt'']])
     = set [''in/a.txt'', ''out/b.txt'', ''in/a.txt'']"
    using p by (elim conjE)
  have d: "set ([ [''in/a.txt'', ''in/a.txt''], [''out/b.txt'']] ! 0) \<inter>
   set ([ [''in/a.txt'', ''in/a.txt''], [''out/b.txt'']] ! 1) = {}"
  proof -
    have "\<forall>i j. i < length [ [''in/a.txt'', ''in/a.txt''], [''out/b.txt'']] \<and>
            j < length [ [''in/a.txt'', ''in/a.txt''], [''out/b.txt'']] \<and> i \<noteq> j \<longrightarrow>
            set ([ [''in/a.txt'', ''in/a.txt''], [''out/b.txt'']] ! i) \<inter>
            set ([ [''in/a.txt'', ''in/a.txt''], [''out/b.txt'']] ! j) = {}"
      using p by (elim conjE)
    from this[rule_format, of 0 1] show ?thesis by simp
  qed
  have e: "\<exists>!i. i < length [ [''in/a.txt'', ''in/a.txt''], [''out/b.txt'']] \<and>
         ''in/a.txt'' \<in> set ([ [''in/a.txt'', ''in/a.txt''], [''out/b.txt'']] ! i)"
  proof -
    have "\<forall>p\<in>set [''in/a.txt'', ''out/b.txt'', ''in/a.txt''].
        \<exists>!i. i < length [ [''in/a.txt'', ''in/a.txt''], [''out/b.txt'']] \<and>
             p \<in> set ([ [''in/a.txt'', ''in/a.txt''], [''out/b.txt'']] ! i)"
      using p by (elim conjE)
    from this[rule_format, of "''in/a.txt''"] show ?thesis by simp
  qed
  show ?thesis using r t duplicates_grouping u d e by (intro conjI)
qed

end
